theory Spec2Isabelle
  imports Main "HOL-Library.Word"
begin

section \<open>pbuilderaction.py: the registry of workflow actions\<close>

text \<open>
  The three handler classes of \<^verbatim>\<open>pbuilderaction.py\<close>, each with its class attribute
  \<^verbatim>\<open>tag\<close>. \<^verbatim>\<open>PBuilderAction.actiondict\<close> is a dictionary from tag to class, filled by the
  module-level calls of \<^verbatim>\<open>PBuilderAction.register\<close>.
\<close>

datatype action = CreateAction | UpdateAction | BuildAction

datatype py_error =
    KeyError string
  | ValueError
  | RuntimeError
  | UnboundLocalError
  | BinasciiError
  | HTTPBadStatusLine
  | ElbeVersionMismatch string string
  | ConnectError
  | CliError nat
  | CalledProcessError

fun tag :: "action \<Rightarrow> string" where
  "tag CreateAction = ''create''"
| "tag UpdateAction = ''update''"
| "tag BuildAction = ''build''"

definition register :: "action \<Rightarrow> (string \<rightharpoonup> action) \<Rightarrow> (string \<rightharpoonup> action)" where
  "register a d = d(tag a \<mapsto> a)"

text \<open>
  The module registers, in this order: \<^verbatim>\<open>PBuilderAction.register(CreateAction)\<close> after the
  class \<^verbatim>\<open>CreateAction\<close>, \<^verbatim>\<open>PBuilderAction.register(CreateAction)\<close> after the class
  \<^verbatim>\<open>UpdateAction\<close>, and \<^verbatim>\<open>PBuilderAction.register(BuildAction)\<close> after the class
  \<^verbatim>\<open>BuildAction\<close>.
\<close>

definition actiondict :: "string \<rightharpoonup> action" where
  "actiondict = register BuildAction (register CreateAction (register CreateAction Map.empty))"

text \<open>
  \<^verbatim>\<open>PBuilderAction.__new__(cls, node)\<close>: \<^verbatim>\<open>action = cls.actiondict[node]\<close> raises
  \<^verbatim>\<open>KeyError\<close> for a name that is not a key; otherwise an object of the class found is made.
\<close>

definition PBuilderAction_new :: "string \<Rightarrow> py_error + action" where
  "PBuilderAction_new node =
     (case actiondict node of None \<Rightarrow> Inl (KeyError node) | Some a \<Rightarrow> Inr a)"

section \<open>pbuilderaction.py: the build pipeline\<close>

text \<open>
  The pipelines run \<^verbatim>\<open>elbe control\<close> subcommands as external processes. A command is
  kept as a value rather than as the formatted shell string: one constructor for each
  command line the module composes, with the interpolated arguments as fields.
\<close>

datatype cmd =
    Create_project string
  | Build_pbuilder string
  | Update_pbuilder string
  | Wait_busy string
  | Rm_log string
  | Tar string
  | Set_orig string string
  | Set_pdebuild string string string string string
  | Get_files "string option" string
  | Dump_file string string

record cmd_result =
  cr_ret :: int
  cr_out :: string
  cr_err :: string

text \<open>
  What the process has done so far: the external commands it ran, in order, and the lines
  it printed to \<^verbatim>\<open>sys.stderr\<close>. The progress lines printed to standard output are left out.
\<close>

record proc =
  cmds :: "cmd list"
  stderr :: "string list"

datatype outcome = Returned | SysExit nat | Raised py_error

text \<open>
  The environment answers the \<open>k\<close>-th external command of a run (counting from 0) with
  its exit status and its captured output.
\<close>

type_synonym env = "nat \<Rightarrow> cmd \<Rightarrow> cmd_result"

text \<open>
  Modelled from the spec: the command runners \<^verbatim>\<open>system\<close> and \<^verbatim>\<open>command_out_stderr\<close> are
  imported from \<^verbatim>\<open>elbepack.shellhelper\<close> but are not among the sources. The spec describes a
  command runner that executes a shell string, captures output, and raises on nonzero
  exit; \<^verbatim>\<open>system\<close> is that runner (\<open>False\<close> stands for the raised
  \<^verbatim>\<open>subprocess.CalledProcessError\<close>), and \<^verbatim>\<open>command_out_stderr\<close> returns the triple of exit
  status, standard output and standard error, as its callers unpack it.
\<close>

definition system :: "env \<Rightarrow> cmd \<Rightarrow> proc \<Rightarrow> bool \<times> proc" where
  "system env c s = (cr_ret (env (length (cmds s)) c) = 0, s\<lparr>cmds := cmds s @ [c]\<rparr>)"

definition command_out_stderr :: "env \<Rightarrow> cmd \<Rightarrow> proc \<Rightarrow> cmd_result \<times> proc" where
  "command_out_stderr env c s = (env (length (cmds s)) c, s\<lparr>cmds := cmds s @ [c]\<rparr>)"

definition eprint :: "string list \<Rightarrow> proc \<Rightarrow> proc" where
  "eprint ls s = s\<lparr>stderr := stderr s @ ls\<rparr>"

text \<open>
  \<^verbatim>\<open>str.strip()\<close> removes the characters of \<^verbatim>\<open>str.isspace\<close> at both ends. A character here is
  a code point below 256; the white space among them is 0x09 to 0x0D, 0x1C to 0x1F, the
  space, 0x85 and 0xA0.
\<close>

definition is_space :: "char \<Rightarrow> bool" where
  "is_space c =
     (c \<in> set [CHR 0x09, CHR 0x0A, CHR 0x0B, CHR 0x0C, CHR 0x0D, CHR 0x1C, CHR 0x1D, CHR 0x1E,
                CHR 0x1F, CHR '' '', CHR 0x85, CHR 0xA0])"

definition strip :: "string \<Rightarrow> string" where
  "strip s = rev (dropWhile is_space (rev (dropWhile is_space s)))"

text \<open>
  The options of the command line that \<^verbatim>\<open>BuildAction.execute\<close> reads. An option that was
  not given is \<open>None\<close>; \<^verbatim>\<open>if opt.xmlfile:\<close> holds for a string that is given and not empty.
\<close>

record options =
  opt_cross :: bool
  opt_xmlfile :: "string option"
  opt_project :: "string option"
  opt_origfile :: "string list"
  opt_cpuset :: string
  opt_profile :: string
  opt_skip_download :: bool
  opt_outdir :: "string option"

fun truthy :: "string option \<Rightarrow> bool" where
  "truthy None = False"
| "truthy (Some s) = (s \<noteq> [])"

text \<open>\<^verbatim>\<open>ensure_outdir(opt)\<close>: a missing output directory becomes \<^verbatim>\<open>'..'\<close>.\<close>

definition ensure_outdir :: "options \<Rightarrow> options" where
  "ensure_outdir opt = (if opt_outdir opt = None then opt\<lparr>opt_outdir := Some ''..''\<rparr> else opt)"

text \<open>
  The first part of \<^verbatim>\<open>BuildAction.execute\<close>: obtain the project directory, either by creating
  a project from \<^verbatim>\<open>opt.xmlfile\<close> and building its pbuilder, or from \<^verbatim>\<open>opt.project\<close>. The call
  of \<^verbatim>\<open>system\<close> for \<^verbatim>\<open>rm_log\<close> is not inside a \<^verbatim>\<open>try\<close>: its failure leaves the function as
  an uncaught \<^verbatim>\<open>CalledProcessError\<close>.
\<close>

definition build_project :: "env \<Rightarrow> options \<Rightarrow> proc \<Rightarrow> (outcome + string) \<times> proc" where
  "build_project env opt s =
     (if truthy (opt_xmlfile opt) then
        (case command_out_stderr env (Create_project (the (opt_xmlfile opt))) s of
           (r, s1) \<Rightarrow>
             if cr_ret r \<noteq> 0 then
               (Inl (SysExit 160),
                eprint [''elbe control create_project failed.'', cr_err r, ''Giving up''] s1)
             else
               (let prjdir = strip (cr_out r) in
                case system env (Build_pbuilder prjdir) s1 of
                  (False, s2) \<Rightarrow>
                    (Inl (SysExit 161),
                     eprint [''elbe control build_pbuilder Failed'', ''Giving up''] s2)
                | (True, s2) \<Rightarrow>
                    (case system env (Wait_busy prjdir) s2 of
                       (False, s3) \<Rightarrow>
                         (Inl (SysExit 162),
                          eprint [''elbe control wait_busy Failed'', ''Giving up''] s3)
                     | (True, s3) \<Rightarrow> (Inr prjdir, s3))))
      else if truthy (opt_project opt) then
        (let prjdir = the (opt_project opt) in
         case system env (Rm_log prjdir) s of
           (False, s1) \<Rightarrow> (Inl (Raised CalledProcessError), s1)
         | (True, s1) \<Rightarrow> (Inr prjdir, s1))
      else
        (Inl (SysExit 163),
         eprint [''you need to specify --project or --xmlfile option''] s))"

text \<open>The loop \<^verbatim>\<open>for of in opt.origfile\<close>: the first failing push ends the process.\<close>

fun push_origs :: "env \<Rightarrow> string \<Rightarrow> string list \<Rightarrow> proc \<Rightarrow> bool \<times> proc" where
  "push_origs env prjdir [] s = (True, s)"
| "push_origs env prjdir (f # fs) s =
     (case system env (Set_orig prjdir f) s of
        (False, s1) \<Rightarrow> (False, eprint [''elbe control set_orig Failed'', ''Giving up''] s1)
      | (True, s1) \<Rightarrow> push_origs env prjdir fs s1)"

text \<open>
  The handler of a failed \<^verbatim>\<open>get_files\<close>, the same in both branches: announce the log, fetch
  it with \<^verbatim>\<open>dump_file\<close>, report a failure of that fetch, and leave with the given status.
\<close>

definition dump_log :: "env \<Rightarrow> string \<Rightarrow> nat \<Rightarrow> proc \<Rightarrow> outcome \<times> proc" where
  "dump_log env prjdir code s =
     (let s1 = eprint [''elbe control get_files Failed'', [], ''dumping logfile''] s in
      case system env (Dump_file prjdir ''log.txt'') s1 of
        (False, s2) \<Rightarrow>
          (SysExit code, eprint [''elbe control dump_file Failed'', [], ''Giving up''] s2)
      | (True, s2) \<Rightarrow> (SysExit code, s2))"

text \<open>The last part of \<^verbatim>\<open>BuildAction.execute\<close>, after \<^verbatim>\<open>Pdebuild finished !\<close>.\<close>

definition build_fetch :: "env \<Rightarrow> options \<Rightarrow> string \<Rightarrow> proc \<Rightarrow> outcome \<times> proc" where
  "build_fetch env opt prjdir s =
     (if opt_skip_download opt then
        (case system env (Get_files None prjdir) s of
           (False, s1) \<Rightarrow> dump_log env prjdir 168 s1
         | (True, s1) \<Rightarrow> (Returned, s1))
      else
        (case system env (Get_files (opt_outdir (ensure_outdir opt)) prjdir) s of
           (False, s1) \<Rightarrow> dump_log env prjdir 169 s1
         | (True, s1) \<Rightarrow> (Returned, s1)))"

text \<open>
  \<^verbatim>\<open>BuildAction.execute(opt, _args)\<close>. The argument \<open>tarball\<close> is the path
  \<^verbatim>\<open>tmp.fname("pdebuild.tar.gz")\<close> inside the temporary directory.
\<close>

definition BuildAction_execute :: "env \<Rightarrow> string \<Rightarrow> options \<Rightarrow> outcome \<times> proc" where
  "BuildAction_execute env tarball opt =
     (let crossopt = (if opt_cross opt then ''--cross'' else []) in
      case build_project env opt \<lparr>cmds = [], stderr = []\<rparr> of
        (Inl e, s1) \<Rightarrow> (e, s1)
      | (Inr prjdir, s1) \<Rightarrow>
          (case system env (Tar tarball) s1 of
             (False, s2) \<Rightarrow> (SysExit 164, eprint [''tar Failed'', ''Giving up''] s2)
           | (True, s2) \<Rightarrow>
               (case push_origs env prjdir (opt_origfile opt) s2 of
                  (False, s3) \<Rightarrow> (SysExit 165, s3)
                | (True, s3) \<Rightarrow>
                    (case system env
                        (Set_pdebuild (opt_cpuset opt) (opt_profile opt) crossopt prjdir tarball)
                        s3 of
                       (False, s4) \<Rightarrow>
                         (SysExit 166,
                          eprint [''elbe control set_pdebuild Failed'', ''Giving up''] s4)
                     | (True, s4) \<Rightarrow>
                         (case system env (Wait_busy prjdir) s4 of
                            (False, s5) \<Rightarrow>
                              (SysExit 167,
                               eprint [''elbe control wait_busy Failed'', ''Giving up''] s5)
                          | (True, s5) \<Rightarrow> build_fetch env opt prjdir s5)))))"

text \<open>
  \<^verbatim>\<open>UpdateAction.execute(opt, _args)\<close>: one \<^verbatim>\<open>update_pbuilder\<close> request for the project given,
  and no wait for the project afterwards.
\<close>

definition UpdateAction_execute :: "env \<Rightarrow> options \<Rightarrow> outcome \<times> proc" where
  "UpdateAction_execute env opt =
     (if \<not> truthy (opt_project opt) then
        (SysExit 158, eprint [''you need to specify --project option''] \<lparr>cmds = [], stderr = []\<rparr>)
      else
        (case system env (Update_pbuilder (the (opt_project opt))) \<lparr>cmds = [], stderr = []\<rparr> of
           (False, s1) \<Rightarrow>
             (SysExit 159, eprint [''elbe control update_pbuilder Failed'', ''Giving up''] s1)
         | (True, s1) \<Rightarrow> (Returned, s1)))"

section \<open>binascii: the transport encoding\<close>

text \<open>
  \<^verbatim>\<open>binascii.b2a_base64\<close> and \<^verbatim>\<open>binascii.a2b_base64\<close> of Python's standard library. A byte is
  an 8-bit word. The encoder turns every three bytes into four characters of the table,
  pads the last group with \<^verbatim>\<open>=\<close>, and ends the result with a newline. The decoder is the
  loop of the library in its default, lenient mode: characters outside the table are
  passed over, a complete run of padding ends the decoding, and a group left unfinished at
  the end of the input is an error. Given a \<^verbatim>\<open>str\<close>, as \<^verbatim>\<open>download_file\<close> gives it,
  \<^verbatim>\<open>a2b_base64\<close> first raises \<^verbatim>\<open>ValueError\<close> if a character is not ASCII.
\<close>

type_synonym byte = "8 word"

definition table_b2a_base64 :: string where
  "table_b2a_base64 = ''ABCDEFGHIJKLMNOPQRSTUVWXYZabcdefghijklmnopqrstuvwxyz0123456789+/''"

definition b64chr :: "nat \<Rightarrow> char" where
  "b64chr i = table_b2a_base64 ! i"

fun index_of :: "'a list \<Rightarrow> 'a \<Rightarrow> nat option" where
  "index_of [] c = None"
| "index_of (x # xs) c = (if x = c then Some 0 else map_option Suc (index_of xs c))"

definition b64val :: "char \<Rightarrow> nat option" where
  "b64val c = index_of table_b2a_base64 c"

fun b64_groups :: "byte list \<Rightarrow> string" where
  "b64_groups [] = []"
| "b64_groups [a] =
     [b64chr (unat a div 4), b64chr (unat a mod 4 * 16), CHR ''='', CHR ''='']"
| "b64_groups [a, b] =
     [b64chr (unat a div 4), b64chr (unat a mod 4 * 16 + unat b div 16),
      b64chr (unat b mod 16 * 4), CHR ''='']"
| "b64_groups (a # b # c # r) =
     [b64chr (unat a div 4), b64chr (unat a mod 4 * 16 + unat b div 16),
      b64chr (unat b mod 16 * 4 + unat c div 64), b64chr (unat c mod 64)] @ b64_groups r"

definition b2a_base64 :: "byte list \<Rightarrow> string" where
  "b2a_base64 bs = b64_groups bs @ [CHR 0x0A]"

fun a2b_loop :: "nat \<Rightarrow> nat \<Rightarrow> nat \<Rightarrow> byte list \<Rightarrow> string \<Rightarrow> py_error + byte list" where
  "a2b_loop quad_pos leftchar pads bin_data [] =
     (if quad_pos \<noteq> 0 then Inl BinasciiError else Inr bin_data)"
| "a2b_loop quad_pos leftchar pads bin_data (c # cs) =
     (if c = CHR ''='' then
        (if 2 \<le> quad_pos \<and> 4 \<le> quad_pos + (pads + 1) then Inr bin_data
         else a2b_loop quad_pos leftchar (if 2 \<le> quad_pos then pads + 1 else pads) bin_data cs)
      else
        (case b64val c of
           None \<Rightarrow> a2b_loop quad_pos leftchar pads bin_data cs
         | Some v \<Rightarrow>
             (if quad_pos = 0 then a2b_loop 1 v 0 bin_data cs
              else if quad_pos = 1 then
                a2b_loop 2 (v mod 16) 0 (bin_data @ [of_nat (leftchar * 4 + v div 16)]) cs
              else if quad_pos = 2 then
                a2b_loop 3 (v mod 4) 0 (bin_data @ [of_nat (leftchar * 16 + v div 4)]) cs
              else a2b_loop 0 0 0 (bin_data @ [of_nat (leftchar * 64 + v)]) cs)))"

definition a2b_base64 :: "string \<Rightarrow> py_error + byte list" where
  "a2b_base64 s =
     (if list_ex (\<lambda>c. (128 :: nat) \<le> of_char c) s then Inl ValueError
      else a2b_loop 0 0 0 [] s)"

section \<open>soapclient.py\<close>

text \<open>The block size \<^verbatim>\<open>size = 1024 * 1024\<close> of \<^verbatim>\<open>_upload_file\<close> and of \<^verbatim>\<open>set_xml\<close>.\<close>

definition blocksize :: nat where
  "blocksize = 1024 * 1024"

subsection \<open>connect\<close>

text \<open>
  An attempt to construct the \<^verbatim>\<open>suds\<close> client either connects or raises one of the
  network errors that \<^verbatim>\<open>connect\<close> catches (\<^verbatim>\<open>URLError\<close>, \<^verbatim>\<open>socket.error\<close>, \<^verbatim>\<open>BadStatusLine\<close>).
  The argument \<open>client\<close> gives the result of the \<open>k\<close>-th attempt, counted from 0.
\<close>

datatype client_result = Connected | NetworkError

datatype conn_event = Ev_client | Ev_sleep_1s | Ev_get_version | Ev_login string string

text \<open>
  The loop \<^verbatim>\<open>while control is None\<close>. The argument \<open>current_retries\<close> is the value of the
  counter at the head of a pass, before \<^verbatim>\<open>current_retries += 1\<close>, which is also the number
  of attempts made so far. The result says whether a connection was obtained; \<open>False\<close> is
  the network error raised again once \<^verbatim>\<open>current_retries > self._retries\<close>, here
  \<open>ConnectError\<close>.
\<close>

function connect_loop ::
  "(nat \<Rightarrow> client_result) \<Rightarrow> int \<Rightarrow> int \<Rightarrow> conn_event list \<Rightarrow> bool \<times> conn_event list" where
  "connect_loop client retries current_retries evs =
     (case client (nat current_retries) of
        Connected \<Rightarrow> (True, evs @ [Ev_client])
      | NetworkError \<Rightarrow>
          if current_retries + 1 > retries then (False, evs @ [Ev_client])
          else connect_loop client retries (current_retries + 1) (evs @ [Ev_client, Ev_sleep_1s]))"
  by pat_completeness auto
termination
  by (relation "measure (\<lambda>(client, retries, current_retries, evs). nat (retries - current_retries))")
    auto

text \<open>
  \<^verbatim>\<open>connect(self)\<close>. \<open>elbe_version\<close> is the version of the client (from
  \<^verbatim>\<open>elbepack.version\<close>), \<open>server_version\<close> is what \<^verbatim>\<open>self.service.get_version()\<close> answers.
  The trace lists the attempts to connect, the sleeps and the remote calls, in order.
\<close>

definition connect ::
  "(nat \<Rightarrow> client_result) \<Rightarrow> int \<Rightarrow> string \<Rightarrow> string \<Rightarrow> string \<Rightarrow> string
     \<Rightarrow> outcome \<times> conn_event list" where
  "connect client retries elbe_version server_version user passwd =
     (case connect_loop client retries 0 [] of
        (False, evs) \<Rightarrow> (Raised ConnectError, evs)
      | (True, evs) \<Rightarrow>
          if elbe_version \<noteq> server_version then
            (Raised (ElbeVersionMismatch elbe_version server_version), evs @ [Ev_get_version])
          else (Returned, evs @ [Ev_get_version, Ev_login user passwd]))"

subsection \<open>download_file\<close>

text \<open>
  A \<^verbatim>\<open>get_file\<close> request either raises \<^verbatim>\<open>BadStatusLine\<close> or answers with a string. The
  argument \<open>get_file\<close> of the functions below is the remote service: it gives the answer to
  the \<open>k\<close>-th request of the download (counted from 0), which asks for chunk \<open>part\<close>.
\<close>

datatype get_file_resp = BadStatusLine | Reply string

datatype dl_message = Get_file_failed nat int | File_transfer_failed

text \<open>
  The local variables of \<^verbatim>\<open>download_file\<close> (\<^verbatim>\<open>ret\<close> is unbound until the first answer), the
  bytes written to the destination file \<^verbatim>\<open>fp\<close> and whether it has been closed, the chunk
  indices requested so far, and the lines printed to \<^verbatim>\<open>sys.stderr\<close>.
\<close>

record download_state =
  dl_part :: nat
  dl_retry :: int
  dl_ret :: "string option"
  fp_data :: "byte list"
  fp_closed :: bool
  dl_calls :: "nat list"
  dl_stderr :: "dl_message list"

text \<open>
  The statements of the loop body after the \<^verbatim>\<open>try\<close> statement. Reading \<^verbatim>\<open>ret\<close> while it is
  unbound raises \<^verbatim>\<open>UnboundLocalError\<close>. \<open>None\<close> as outcome means that the loop goes on.
\<close>

definition download_rest :: "download_state \<Rightarrow> outcome option \<times> download_state" where
  "download_rest s =
     (case dl_ret s of
        None \<Rightarrow> (Some (Raised UnboundLocalError), s)
      | Some ret \<Rightarrow>
          if ret = ''EndOfFile'' then (Some Returned, s\<lparr>fp_closed := True\<rparr>)
          else
            (case a2b_base64 ret of
               Inl e \<Rightarrow> (Some (Raised e), s)
             | Inr bs \<Rightarrow> (None, s\<lparr>fp_data := fp_data s @ bs, dl_part := dl_part s + 1\<rparr>)))"

text \<open>One pass through the body of \<^verbatim>\<open>while True\<close>.\<close>

definition download_body ::
  "(nat \<Rightarrow> nat \<Rightarrow> get_file_resp) \<Rightarrow> download_state \<Rightarrow> outcome option \<times> download_state" where
  "download_body get_file s =
     (let s1 = s\<lparr>dl_calls := dl_calls s @ [dl_part s]\<rparr> in
      case get_file (length (dl_calls s)) (dl_part s) of
        BadStatusLine \<Rightarrow>
          (let s2 = s1\<lparr>dl_retry := dl_retry s1 - 1\<rparr>;
               s3 = s2\<lparr>dl_stderr := dl_stderr s2 @ [Get_file_failed (dl_part s2) (dl_retry s2)]\<rparr>
           in
             if dl_retry s3 = 0 then
               (Some (SysExit 170),
                s3\<lparr>fp_closed := True, dl_stderr := dl_stderr s3 @ [File_transfer_failed]\<rparr>)
             else download_rest s3)
      | Reply r \<Rightarrow> download_rest (s1\<lparr>dl_ret := Some r\<rparr>))"

text \<open>
  The loop, which has no bound of its own: \<open>n\<close> bounds the number of passes, and \<open>None\<close> is
  a run that is still going after \<open>n\<close> passes.
\<close>

fun download_loop ::
  "nat \<Rightarrow> (nat \<Rightarrow> nat \<Rightarrow> get_file_resp) \<Rightarrow> download_state \<Rightarrow> (outcome \<times> download_state) option"
  where
  "download_loop 0 get_file s = None"
| "download_loop (Suc n) get_file s =
     (case download_body get_file s of
        (Some res, s') \<Rightarrow> Some (res, s')
      | (None, s') \<Rightarrow> download_loop n get_file s')"

text \<open>
  \<^verbatim>\<open>download_file(self, builddir, filename, dst_fname)\<close>: the destination is opened for
  writing (and so is empty), \<^verbatim>\<open>part = 0\<close> and \<^verbatim>\<open>retry = 5\<close> are set once, before the loop.
\<close>

definition download_init :: download_state where
  "download_init =
     \<lparr>dl_part = 0, dl_retry = 5, dl_ret = None, fp_data = [], fp_closed = False,
      dl_calls = [], dl_stderr = []\<rparr>"

definition download_file ::
  "nat \<Rightarrow> (nat \<Rightarrow> nat \<Rightarrow> get_file_resp) \<Rightarrow> (outcome \<times> download_state) option" where
  "download_file n get_file = download_loop n get_file download_init"

subsection \<open>The upload primitive\<close>

text \<open>
  \<^verbatim>\<open>_upload_file(append, build_dir, filename)\<close> on a file with the content \<open>f\<close>: the list of
  the encoded blocks passed to \<^verbatim>\<open>append\<close>, in order. \<^verbatim>\<open>f.read(size)\<close> returns the next
  \<^verbatim>\<open>size\<close> bytes, or fewer at the end of the file.
\<close>

function upload_file :: "byte list \<Rightarrow> string list" where
  "upload_file f =
     b2a_base64 (take blocksize f) #
       (if length (take blocksize f) \<noteq> blocksize then [] else upload_file (drop blocksize f))"
  by pat_completeness auto
termination
  by (relation "measure length") (auto simp: blocksize_def)

datatype soap_call =
    Start_upload_orig string string
  | Append_upload_orig string string
  | Finish_upload_orig string
  | Start_pdebuild string
  | Append_pdebuild string string
  | Finish_pdebuild string string bool
  | Start_cdrom string
  | Append_cdrom string string
  | Finish_cdrom string

text \<open>\<^verbatim>\<open>os.path.basename\<close>: what follows the last slash.\<close>

definition basename :: "string \<Rightarrow> string" where
  "basename p = rev (takeWhile (\<lambda>c. c \<noteq> CHR ''/'') (rev p))"

text \<open>
  The three users of the upload primitive, as the remote calls they make for a local file
  with the content \<open>f\<close>.
\<close>

definition set_orig :: "string \<Rightarrow> string \<Rightarrow> byte list \<Rightarrow> soap_call list" where
  "set_orig builddir orig_file f =
     Start_upload_orig builddir (basename orig_file)
       # map (Append_upload_orig builddir) (upload_file f) @ [Finish_upload_orig builddir]"

definition set_pdebuild :: "string \<Rightarrow> byte list \<Rightarrow> string \<Rightarrow> bool \<Rightarrow> soap_call list" where
  "set_pdebuild builddir f profile cross =
     Start_pdebuild builddir
       # map (Append_pdebuild builddir) (upload_file f) @ [Finish_pdebuild builddir profile cross]"

definition set_cdrom :: "string \<Rightarrow> byte list \<Rightarrow> soap_call list" where
  "set_cdrom builddir f =
     Start_cdrom builddir # map (Append_cdrom builddir) (upload_file f) @ [Finish_cdrom builddir]"

subsection \<open>wait_busy\<close>

text \<open>
  A \<^verbatim>\<open>get_project_busy\<close> request raises \<^verbatim>\<open>socket.error\<close>, or raises another exception (a
  malformed status line raises \<^verbatim>\<open>http.client.BadStatusLine\<close>, which is not a
  \<^verbatim>\<open>socket.error\<close>), or answers with a message. The argument \<open>get_project_busy\<close> gives
  the outcome of the \<open>k\<close>-th poll. The generator is modelled as run to its end by its
  consumer: the messages it yields are collected in order, next to a trace of what it
  does.
\<close>

datatype busy_resp = SocketError | Poll_raises py_error | Busy_msg string

datatype wb_event = Ev_poll | Ev_warn | Ev_sleep_100ms | Ev_yield string | Ev_get_project

record wb_state =
  wb_polls :: nat
  wb_yielded :: "string list"
  wb_events :: "wb_event list"

text \<open>
  One pass through the body of \<^verbatim>\<open>while True\<close>: the loop goes on, or leaves by \<^verbatim>\<open>break\<close>, or
  is left by an exception that \<^verbatim>\<open>except socket.error\<close> does not catch.
\<close>

datatype loop_step = Continue | Break | Raise py_error

definition wait_busy_body :: "(nat \<Rightarrow> busy_resp) \<Rightarrow> wb_state \<Rightarrow> loop_step \<times> wb_state" where
  "wait_busy_body get_project_busy s =
     (let s1 = s\<lparr>wb_polls := wb_polls s + 1, wb_events := wb_events s @ [Ev_poll]\<rparr> in
      case get_project_busy (wb_polls s) of
        SocketError \<Rightarrow> (Continue, s1\<lparr>wb_events := wb_events s1 @ [Ev_warn]\<rparr>)
      | Poll_raises e \<Rightarrow> (Raise e, s1)
      | Busy_msg msg \<Rightarrow>
          if msg = [] then (Continue, s1\<lparr>wb_events := wb_events s1 @ [Ev_sleep_100ms]\<rparr>)
          else if msg = ''ELBE-FINISH'' then (Break, s1)
          else
            (Continue, s1\<lparr>wb_yielded := wb_yielded s1 @ [msg],
                          wb_events := wb_events s1 @ [Ev_yield msg]\<rparr>))"

text \<open>
  The loop, with at most \<open>n\<close> passes: it ends by \<^verbatim>\<open>break\<close> (\<open>None\<close>) or with the exception
  that left it.
\<close>

fun wait_busy_loop ::
  "nat \<Rightarrow> (nat \<Rightarrow> busy_resp) \<Rightarrow> wb_state \<Rightarrow> (py_error option \<times> wb_state) option" where
  "wait_busy_loop 0 get_project_busy s = None"
| "wait_busy_loop (Suc n) get_project_busy s =
     (case wait_busy_body get_project_busy s of
        (Break, s') \<Rightarrow> Some (None, s')
      | (Raise e, s') \<Rightarrow> Some (Some e, s')
      | (Continue, s') \<Rightarrow> wait_busy_loop n get_project_busy s')"

text \<open>
  \<^verbatim>\<open>wait_busy(self, project_dir)\<close>, with at most \<open>n\<close> polls; \<open>prj_status\<close> is the status of the
  project that \<^verbatim>\<open>get_project\<close> answers after the loop. An exception that leaves the loop
  leaves the generator: the statements after the loop are not reached.
\<close>

definition wait_busy ::
  "nat \<Rightarrow> (nat \<Rightarrow> busy_resp) \<Rightarrow> string \<Rightarrow> (outcome \<times> wb_state) option" where
  "wait_busy n get_project_busy prj_status =
     (case wait_busy_loop n get_project_busy \<lparr>wb_polls = 0, wb_yielded = [], wb_events = []\<rparr> of
        None \<Rightarrow> None
      | Some (Some e, s) \<Rightarrow> Some (Raised e, s)
      | Some (None, s) \<Rightarrow>
          (let s1 = s\<lparr>wb_events := wb_events s @ [Ev_get_project]\<rparr> in
           if prj_status \<noteq> ''build_done'' then Some (Raised (CliError 191), s1)
           else Some (Returned, s1)))"

subsection \<open>set_xml\<close>

text \<open>
  The state of the upload loop of \<^verbatim>\<open>set_xml\<close>: the part of the file not yet read, the local
  variable \<^verbatim>\<open>part\<close>, and the \<^verbatim>\<open>upload_file\<close> requests made so far, each as the encoded block
  and the index sent with it.
\<close>

record set_xml_state =
  sx_unread :: "byte list"
  sx_part :: int
  sx_calls :: "(string \<times> int) list"

text \<open>
  One pass through the loop body. The argument \<open>upload_file_reply\<close> is the remote service:
  it gives the integer answered to the \<open>k\<close>-th request, made with the given block and index.
\<close>

definition set_xml_body ::
  "(nat \<Rightarrow> string \<Rightarrow> int \<Rightarrow> int) \<Rightarrow> set_xml_state \<Rightarrow> outcome option \<times> set_xml_state" where
  "set_xml_body upload_file_reply s =
     (let xml_base64 = b2a_base64 (take blocksize (sx_unread s));
          idx = (if length xml_base64 = 1 then - 1 else sx_part s);
          part = upload_file_reply (length (sx_calls s)) xml_base64 idx;
          s1 = s\<lparr>sx_unread := drop blocksize (sx_unread s), sx_part := part,
                 sx_calls := sx_calls s @ [(xml_base64, idx)]\<rparr>
      in
        if part = - 1 then (Some (Raised RuntimeError), s1)
        else if part = - 2 then (Some Returned, s1)
        else (None, s1))"

fun set_xml_loop ::
  "nat \<Rightarrow> (nat \<Rightarrow> string \<Rightarrow> int \<Rightarrow> int) \<Rightarrow> set_xml_state \<Rightarrow> (outcome \<times> set_xml_state) option"
  where
  "set_xml_loop 0 upload_file_reply s = None"
| "set_xml_loop (Suc n) upload_file_reply s =
     (case set_xml_body upload_file_reply s of
        (Some res, s') \<Rightarrow> Some (res, s')
      | (None, s') \<Rightarrow> set_xml_loop n upload_file_reply s')"

text \<open>
  \<^verbatim>\<open>set_xml(self, builddir, filename)\<close> for a file with the content \<open>doc\<close>, with at most \<open>n\<close>
  requests. \<open>has_target\<close> is the result of \<^verbatim>\<open>x.has('target')\<close> for the document parsed by
  \<^verbatim>\<open>ElbeXML\<close>, a class of \<^verbatim>\<open>elbepack.elbexml\<close> that is not among the sources.
\<close>

definition set_xml ::
  "nat \<Rightarrow> bool \<Rightarrow> (nat \<Rightarrow> string \<Rightarrow> int \<Rightarrow> int) \<Rightarrow> byte list \<Rightarrow> (outcome \<times> set_xml_state) option"
  where
  "set_xml n has_target upload_file_reply doc =
     (if \<not> has_target then
        Some (Raised ValueError, \<lparr>sx_unread = doc, sx_part = 0, sx_calls = []\<rparr>)
      else set_xml_loop n upload_file_reply \<lparr>sx_unread = doc, sx_part = 0, sx_calls = []\<rparr>)"

section \<open>The remote side of the file transfer\<close>

text \<open>
  Modelled from the spec: the handlers of the build service for \<^verbatim>\<open>append\<close> and \<^verbatim>\<open>getFile\<close>
  run on the server and are not among the sources. By the spec, each uploaded block is
  transport-encoded and appended remotely, and \<^verbatim>\<open>getFile(handle, name, chunkIndex)\<close> answers
  the chunk with that index, of 1 MiB, or \<^verbatim>\<open>end of file\<close>; so the server decodes each
  appended block onto the end of the file it keeps, and serves that file in encoded
  chunks of one block size.
\<close>

fun server_append :: "byte list \<Rightarrow> string list \<Rightarrow> py_error + byte list" where
  "server_append stored [] = Inr stored"
| "server_append stored (d # ds) =
     (case a2b_base64 d of
        Inl e \<Rightarrow> Inl e
      | Inr bs \<Rightarrow> server_append (stored @ bs) ds)"

definition server_get_file :: "byte list \<Rightarrow> nat \<Rightarrow> nat \<Rightarrow> get_file_resp" where
  "server_get_file stored k part =
     (if length stored \<le> part * blocksize then Reply ''EndOfFile''
      else Reply (b2a_base64 (take blocksize (drop (part * blocksize) stored))))"

section \<open>Theorems\<close>

subsection \<open>binascii: decoding what was encoded\<close>

lemma table_length: "length table_b2a_base64 = 64"
  by (simp add: table_b2a_base64_def)

lemma table_distinct: "distinct table_b2a_base64"
  by (simp add: table_b2a_base64_def)

lemma table_no_pad: "CHR ''='' \<notin> set table_b2a_base64"
  by (simp add: table_b2a_base64_def)

lemma table_no_newline: "CHR 0x0A \<notin> set table_b2a_base64"
  by (simp add: table_b2a_base64_def)

lemma index_of_nth: "distinct xs \<Longrightarrow> i < length xs \<Longrightarrow> index_of xs (xs ! i) = Some i"
proof (induction xs arbitrary: i)
  case Nil
  then show ?case by simp
next
  case (Cons x xs)
  show ?case
  proof (cases i)
    case 0
    then show ?thesis by simp
  next
    case (Suc j)
    with Cons.prems have "xs ! j \<in> set xs" "x \<notin> set xs" by auto
    then have "x \<noteq> xs ! j" by auto
    with Cons Suc show ?thesis by simp
  qed
qed

lemma index_of_None: "c \<notin> set xs \<Longrightarrow> index_of xs c = None"
  by (induction xs) auto

lemma b64val_b64chr: "i < 64 \<Longrightarrow> b64val (b64chr i) = Some i"
  by (simp add: b64val_def b64chr_def index_of_nth table_distinct table_length)

lemma b64chr_not_pad: "i < 64 \<Longrightarrow> b64chr i \<noteq> CHR ''=''"
proof
  assume "i < 64" and eq: "b64chr i = CHR ''=''"
  then have "b64chr i \<in> set table_b2a_base64"
    unfolding b64chr_def by (intro nth_mem) (simp add: table_length)
  with eq table_no_pad show False by simp
qed

lemma b64val_newline: "b64val (CHR 0x0A) = None"
  by (simp add: b64val_def index_of_None table_no_newline)

text \<open>The decoder on one character of the table, by the position in the group of four.\<close>

lemma a2b_chr:
  "i < 64 \<Longrightarrow> a2b_loop q l p out (b64chr i # cs) =
     (if q = 0 then a2b_loop 1 i 0 out cs
      else if q = 1 then a2b_loop 2 (i mod 16) 0 (out @ [of_nat (l * 4 + i div 16)]) cs
      else if q = 2 then a2b_loop 3 (i mod 4) 0 (out @ [of_nat (l * 16 + i div 4)]) cs
      else a2b_loop 0 0 0 (out @ [of_nat (l * 64 + i)]) cs)"
  by (simp add: b64val_b64chr b64chr_not_pad)

lemma unat_byte: "unat (a :: byte) < 256"
  using unsigned_less [of a, where ?'a = nat] by simp

lemma sextet1: "unat (a :: byte) div 4 < 64"
  using unat_byte [of a] by simp

lemma sextet2: "unat (a :: byte) mod 4 * 16 + unat (b :: byte) div 16 < 64"
proof -
  have "unat a mod 4 < 4" by simp
  then have "unat a mod 4 \<le> 3" by linarith
  moreover have "unat b div 16 < 16" using unat_byte [of b] by simp
  ultimately show ?thesis by linarith
qed

lemma sextet3: "unat (b :: byte) mod 16 * 4 + unat (c :: byte) div 64 < 64"
proof -
  have "unat b mod 16 < 16" by simp
  then have "unat b mod 16 \<le> 15" by linarith
  moreover have "unat c div 64 < 4" using unat_byte [of c] by simp
  ultimately show ?thesis by linarith
qed

lemma sextet4: "unat (c :: byte) mod 64 < 64"
  by simp

lemma sextet2_last: "unat (a :: byte) mod 4 * 16 < 64"
proof -
  have "unat a mod 4 < 4" by simp
  then show ?thesis by linarith
qed

lemma sextet3_last: "unat (b :: byte) mod 16 * 4 < 64"
proof -
  have "unat b mod 16 < 16" by simp
  then show ?thesis by linarith
qed

lemmas sextets = sextet1 sextet2 sextet3 sextet4 sextet2_last sextet3_last

lemma octet1:
  "of_nat (unat a div 4 * 4 + (unat a mod 4 * 16 + unat (b :: byte) div 16) div 16) = (a :: byte)"
proof -
  have "unat a div 4 * 4 + (unat a mod 4 * 16 + unat b div 16) div 16 = unat a"
    using unat_byte [of b] by simp
  then show ?thesis by simp
qed

lemma octet2:
  "of_nat ((unat (a :: byte) mod 4 * 16 + unat b div 16) mod 16 * 16
        + (unat b mod 16 * 4 + unat (c :: byte) div 64) div 4) = (b :: byte)"
proof -
  have "(unat a mod 4 * 16 + unat b div 16) mod 16 = unat b div 16"
    using unat_byte [of b] by simp
  moreover have "unat b div 16 * 16 + (unat b mod 16 * 4 + unat c div 64) div 4 = unat b"
    using unat_byte [of b] unat_byte [of c] by simp
  ultimately show ?thesis by simp
qed

lemma octet3:
  "of_nat ((unat (b :: byte) mod 16 * 4 + unat c div 64) mod 4 * 64 + unat c mod 64) = (c :: byte)"
proof -
  have "(unat b mod 16 * 4 + unat c div 64) mod 4 = unat c div 64"
    using unat_byte [of c] by simp
  then show ?thesis by simp
qed

lemma octet1_last: "of_nat (unat a div 4 * 4 + (unat a mod 4 * 16) div 16) = (a :: byte)"
  by simp

lemma octet2_last:
  "of_nat ((unat (a :: byte) mod 4 * 16 + unat b div 16) mod 16 * 16
        + (unat b mod 16 * 4) div 4) = (b :: byte)"
proof -
  have "(unat a mod 4 * 16 + unat b div 16) mod 16 = unat b div 16"
    using unat_byte [of b] by simp
  then show ?thesis by simp
qed

lemmas octets = octet1 octet2 octet3 octet1_last octet2_last

lemma a2b_pad2: "a2b_loop 2 l 0 out (CHR ''='' # CHR ''='' # cs) = Inr out"
  by simp

lemma a2b_pad1: "a2b_loop 3 l 0 out (CHR ''='' # cs) = Inr out"
  by simp

text \<open>
  Decoding the groups of an encoded byte sequence, from the start of a group: the bytes
  come back, and the decoding goes on behind them unless padding has ended it.
\<close>

lemma a2b_groups:
  "a2b_loop 0 l p out (b64_groups bs @ rest) =
     (if bs = [] then a2b_loop 0 l p out rest
      else if length bs mod 3 = 0 then a2b_loop 0 0 0 (out @ bs) rest
      else Inr (out @ bs))"
proof (induction bs arbitrary: l p out rule: b64_groups.induct)
  case 1
  show ?case by simp
next
  case (2 a)
  show ?case
    by (simp only: b64_groups.simps append_Cons append_Nil a2b_chr sextets octets
        a2b_pad2) simp
next
  case (3 a b)
  show ?case
    by (simp only: b64_groups.simps append_Cons append_Nil a2b_chr sextets octets
        a2b_pad1) simp
next
  case (4 a b c r)
  have "a2b_loop 0 l p out (b64_groups (a # b # c # r) @ rest)
      = a2b_loop 0 0 0 (out @ [a, b, c]) (b64_groups r @ rest)"
    by (simp only: b64_groups.simps append_Cons append_Nil a2b_chr sextets octets) simp
  also have "\<dots> = (if r = [] then a2b_loop 0 0 0 (out @ [a, b, c]) rest
      else if length r mod 3 = 0 then a2b_loop 0 0 0 ((out @ [a, b, c]) @ r) rest
      else Inr ((out @ [a, b, c]) @ r))"
    by (rule "4.IH")
  finally show ?case by simp
qed

text \<open>What the encoder writes is ASCII.\<close>

lemma table_ascii: "\<forall>c\<in>set table_b2a_base64. of_char c < (128 :: nat)"
  by (simp add: table_b2a_base64_def)

lemma b64chr_ascii: "i < 64 \<Longrightarrow> of_char (b64chr i) < (128 :: nat)"
proof -
  assume "i < 64"
  then have "b64chr i \<in> set table_b2a_base64"
    unfolding b64chr_def by (intro nth_mem) (simp add: table_length)
  with table_ascii show ?thesis by blast
qed

lemma b64_groups_ascii: "\<forall>c\<in>set (b64_groups bs). of_char c < (128 :: nat)"
  by (induction bs rule: b64_groups.induct) (simp_all add: b64chr_ascii sextets)

lemma b2a_ascii: "\<not> list_ex (\<lambda>c. (128 :: nat) \<le> of_char c) (b2a_base64 bs)"
  using b64_groups_ascii [of bs] by (auto simp: b2a_base64_def list_ex_iff)

lemma a2b_b2a: "a2b_base64 (b2a_base64 bs) = Inr bs"
proof -
  have "a2b_loop 0 0 0 [] (b2a_base64 bs) = Inr bs"
    by (simp add: b2a_base64_def a2b_groups b64val_newline)
  then show ?thesis by (simp add: a2b_base64_def b2a_ascii)
qed

lemma b2a_len1: "length (b2a_base64 bs) = 1 \<longleftrightarrow> bs = []"
  by (cases bs rule: b64_groups.cases) (simp_all add: b2a_base64_def)

lemma b2a_not_eof: "b2a_base64 bs \<noteq> ''EndOfFile''"
proof
  assume "b2a_base64 bs = ''EndOfFile''"
  then have "last (b2a_base64 bs) = last ''EndOfFile''" by simp
  then show False by (simp add: b2a_base64_def)
qed

lemma blocksize_pos: "0 < blocksize"
  by (simp add: blocksize_def)

subsection \<open>The registry of workflow actions\<close>

text \<open>
  The handler of the \<^verbatim>\<open>update\<close> pipeline itself asks for one \<^verbatim>\<open>update_pbuilder\<close> of the
  project given and returns when that command has succeeded, with no \<^verbatim>\<open>wait_busy\<close>.
\<close>

lemma update_action_requests_update:
  assumes "opt_project opt = Some prjdir" and "prjdir \<noteq> []"
    and "cr_ret (env 0 (Update_pbuilder prjdir)) = 0"
  shows "UpdateAction_execute env opt =
           (Returned, \<lparr>cmds = [Update_pbuilder prjdir], stderr = []\<rparr>)"
  using assms by (simp add: UpdateAction_execute_def system_def)

text \<open>
  C3: constructing an action by the names \<^verbatim>\<open>create\<close> and \<^verbatim>\<open>build\<close> gives the handler of
  that pipeline, but the name \<^verbatim>\<open>update\<close> is not a key of the registry: the class
  \<^verbatim>\<open>UpdateAction\<close> is never registered (\<^verbatim>\<open>CreateAction\<close> is registered twice), so
  constructing an action by the name \<^verbatim>\<open>update\<close> raises \<^verbatim>\<open>KeyError\<close>.
\<close>

theorem update_action_not_registered:
  "PBuilderAction_new ''create'' = Inr CreateAction \<and>
   PBuilderAction_new ''build'' = Inr BuildAction \<and>
   PBuilderAction_new ''update'' = Inl (KeyError ''update'')"
  by (simp add: PBuilderAction_new_def actiondict_def register_def)


subsection \<open>connect\<close>

declare connect_loop.simps [simp del]

text \<open>
  If the attempts before the \<open>k\<close>-th fail and the \<open>k\<close>-th connects, within the retry
  budget, the loop sleeps after each failure and ends with the connection.
\<close>

lemma connect_loop_connects:
  assumes "client (nat c + k) = Connected"
    and "\<forall>j<k. client (nat c + j) = NetworkError"
    and "0 \<le> c" and "k = 0 \<or> c + int k \<le> retries"
  shows "connect_loop client retries c evs =
           (True, evs @ concat (replicate k [Ev_client, Ev_sleep_1s]) @ [Ev_client])"
  using assms
proof (induction k arbitrary: c evs)
  case 0
  then show ?case by (simp add: connect_loop.simps [of client retries c evs])
next
  case (Suc k)
  from Suc.prems(2) have c0: "client (nat c) = NetworkError" by force
  have nat_suc: "nat (c + 1) = Suc (nat c)" using Suc.prems(3) by simp
  have a: "client (nat (c + 1) + k) = Connected" using Suc.prems(1) nat_suc by simp
  have b: "\<forall>j<k. client (nat (c + 1) + j) = NetworkError"
  proof (intro allI impI)
    fix j assume "j < k"
    then have "Suc j < Suc k" by simp
    with Suc.prems(2) have "client (nat c + Suc j) = NetworkError" by blast
    then show "client (nat (c + 1) + j) = NetworkError" using nat_suc by simp
  qed
  have d: "k = 0 \<or> (c + 1) + int k \<le> retries" using Suc.prems(4) by auto
  have e: "\<not> c + 1 > retries" using Suc.prems(4) by auto
  have "connect_loop client retries c evs =
          connect_loop client retries (c + 1) (evs @ [Ev_client, Ev_sleep_1s])"
    using c0 e by (simp add: connect_loop.simps [of client retries c evs])
  also have "\<dots> = (True, (evs @ [Ev_client, Ev_sleep_1s])
                  @ concat (replicate k [Ev_client, Ev_sleep_1s]) @ [Ev_client])"
    using a b d Suc.prems(3) by (intro Suc.IH) auto
  finally show ?case by simp
qed

text \<open>
  C5: when the \<open>k\<close>-th attempt of \<^verbatim>\<open>connect\<close> obtains the connection (the earlier ones having
  failed within the retry budget) and the version of the server differs from the version
  of the client, \<^verbatim>\<open>connect\<close> raises \<^verbatim>\<open>ElbeVersionMismatch\<close>. Its trace ends with the one
  \<^verbatim>\<open>get_version\<close> request right after the connection: there is no \<^verbatim>\<open>login\<close> and no further
  attempt to connect, whatever remains of the budget \<open>retries\<close>.
\<close>

theorem version_mismatch_aborts_before_login:
  assumes "client k = Connected"
    and "\<forall>j<k. client j = NetworkError"
    and "k = 0 \<or> int k \<le> retries"
    and "server_version \<noteq> elbe_version"
  shows "connect client retries elbe_version server_version user passwd =
           (Raised (ElbeVersionMismatch elbe_version server_version),
            concat (replicate k [Ev_client, Ev_sleep_1s]) @ [Ev_client, Ev_get_version])
         \<and> (\<forall>u p. Ev_login u p \<notin>
               set (concat (replicate k [Ev_client, Ev_sleep_1s]) @ [Ev_client, Ev_get_version]))"
proof -
  have "connect_loop client retries 0 [] =
          (True, [] @ concat (replicate k [Ev_client, Ev_sleep_1s]) @ [Ev_client])"
    using assms(1-3) by (intro connect_loop_connects) auto
  then show ?thesis using assms(4) by (auto simp: connect_def)
qed

theorem version_mismatch_aborts_before_login_witness:
  "connect (\<lambda>k. if k < 2 then NetworkError else Connected) 10 ''15.3'' ''14.9'' ''root'' ''foo'' =
     (Raised (ElbeVersionMismatch ''15.3'' ''14.9''),
      [Ev_client, Ev_sleep_1s, Ev_client, Ev_sleep_1s, Ev_client, Ev_get_version])"
  using version_mismatch_aborts_before_login
    [of "\<lambda>k. if k < 2 then NetworkError else Connected" 2 10 "''14.9''" "''15.3''" "''root''" "''foo''"]
  by (simp add: numeral_2_eq_2)

subsection \<open>set_xml: the test for the target\<close>

text \<open>
  C10: when the document has no \<^verbatim>\<open><target>\<close> element, \<^verbatim>\<open>set_xml\<close> raises \<^verbatim>\<open>ValueError\<close> and has
  made no \<^verbatim>\<open>upload_file\<close> request, whatever the service would answer.
\<close>

theorem missing_target_no_request:
  assumes "\<not> has_target"
  shows "\<exists>s. set_xml n has_target upload_file_reply doc = Some (Raised ValueError, s)
           \<and> sx_calls s = []"
  using assms by (simp add: set_xml_def)

theorem missing_target_no_request_witness:
  "\<exists>s. set_xml 0 False (\<lambda>k d i. 0) [1, 2, 3] = Some (Raised ValueError, s) \<and> sx_calls s = []"
  using missing_target_no_request [of False 0 "\<lambda>k d i. 0" "[1, 2, 3]"] by simp


subsection \<open>wait_busy\<close>

lemma wait_busy_body_polls:
  "wait_busy_body g s = (b, s') \<Longrightarrow> wb_polls s' = Suc (wb_polls s)"
  by (auto simp: wait_busy_body_def Let_def split: busy_resp.splits if_splits)

lemma wait_busy_body_step:
  "wait_busy_body g s = (b, s') \<Longrightarrow>
     b = (case g (wb_polls s) of
            SocketError \<Rightarrow> Continue
          | Poll_raises e \<Rightarrow> Raise e
          | Busy_msg m \<Rightarrow> if m = ''ELBE-FINISH'' then Break else Continue)"
  by (auto simp: wait_busy_body_def Let_def split: busy_resp.splits if_splits)

lemma wait_busy_body_events:
  "wait_busy_body g s = (b, s') \<Longrightarrow>
     wb_events s' = wb_events s @ Ev_poll #
       (case g (wb_polls s) of
          SocketError \<Rightarrow> [Ev_warn]
        | Poll_raises e \<Rightarrow> []
        | Busy_msg m \<Rightarrow>
            if m = [] then [Ev_sleep_100ms]
            else if m = ''ELBE-FINISH'' then [] else [Ev_yield m])"
  by (auto simp: wait_busy_body_def Let_def split: busy_resp.splits if_splits)

lemma wait_busy_body_yielded:
  "wait_busy_body g s = (b, s') \<Longrightarrow>
     \<exists>ys. wb_yielded s' = wb_yielded s @ ys \<and> (\<forall>m\<in>set ys. m \<noteq> [] \<and> m \<noteq> ''ELBE-FINISH'')"
  by (auto simp: wait_busy_body_def Let_def split: busy_resp.splits if_splits)

text \<open>
  What a finished run of the loop has done, from any state: the polls up to the last
  neither ended nor left the loop, the last poll did, and the trace and the messages
  yielded are those of the polls made.
\<close>

lemma wait_busy_loop_inv:
  "wait_busy_loop n g s = Some (r, s') \<Longrightarrow>
     wb_polls s < wb_polls s' \<and> wb_polls s' \<le> wb_polls s + n
     \<and> (case r of
           None \<Rightarrow> g (wb_polls s' - 1) = Busy_msg ''ELBE-FINISH''
         | Some e \<Rightarrow> g (wb_polls s' - 1) = Poll_raises e)
     \<and> (\<forall>k. wb_polls s \<le> k \<and> k < wb_polls s' - 1 \<longrightarrow>
           g k \<noteq> Busy_msg ''ELBE-FINISH'' \<and> (\<forall>e. g k \<noteq> Poll_raises e))
     \<and> wb_events s' = wb_events s @ concat (map (\<lambda>k. Ev_poll #
          (case g k of
             SocketError \<Rightarrow> [Ev_warn]
           | Poll_raises e \<Rightarrow> []
           | Busy_msg m \<Rightarrow>
               if m = [] then [Ev_sleep_100ms]
               else if m = ''ELBE-FINISH'' then [] else [Ev_yield m])) [wb_polls s..<wb_polls s'])
     \<and> (\<exists>ys. wb_yielded s' = wb_yielded s @ ys
            \<and> (\<forall>m\<in>set ys. m \<noteq> [] \<and> m \<noteq> ''ELBE-FINISH''))"
proof (induction n arbitrary: s)
  case 0
  then show ?case by simp
next
  case (Suc n)
  obtain b s1 where body: "wait_busy_body g s = (b, s1)" by (cases "wait_busy_body g s")
  note p = wait_busy_body_polls [OF body] and st = wait_busy_body_step [OF body]
    and ev = wait_busy_body_events [OF body] and yl = wait_busy_body_yielded [OF body]
  have one_pass: "wb_polls s < wb_polls s1 \<and> wb_polls s1 \<le> wb_polls s + Suc n
     \<and> (case r' of
           None \<Rightarrow> g (wb_polls s1 - 1) = Busy_msg ''ELBE-FINISH''
         | Some e \<Rightarrow> g (wb_polls s1 - 1) = Poll_raises e)
     \<and> (\<forall>k. wb_polls s \<le> k \<and> k < wb_polls s1 - 1 \<longrightarrow>
           g k \<noteq> Busy_msg ''ELBE-FINISH'' \<and> (\<forall>e. g k \<noteq> Poll_raises e))
     \<and> wb_events s1 = wb_events s @ concat (map (\<lambda>k. Ev_poll #
          (case g k of
             SocketError \<Rightarrow> [Ev_warn]
           | Poll_raises e \<Rightarrow> []
           | Busy_msg m \<Rightarrow>
               if m = [] then [Ev_sleep_100ms]
               else if m = ''ELBE-FINISH'' then [] else [Ev_yield m])) [wb_polls s..<wb_polls s1])
     \<and> (\<exists>ys. wb_yielded s1 = wb_yielded s @ ys
            \<and> (\<forall>m\<in>set ys. m \<noteq> [] \<and> m \<noteq> ''ELBE-FINISH''))"
    if "case r' of
           None \<Rightarrow> g (wb_polls s) = Busy_msg ''ELBE-FINISH''
         | Some e \<Rightarrow> g (wb_polls s) = Poll_raises e" for r'
  proof (intro conjI)
    show "wb_polls s < wb_polls s1" "wb_polls s1 \<le> wb_polls s + Suc n" using p by simp_all
    show "case r' of
           None \<Rightarrow> g (wb_polls s1 - 1) = Busy_msg ''ELBE-FINISH''
         | Some e \<Rightarrow> g (wb_polls s1 - 1) = Poll_raises e"
      using that by (cases r') (simp_all add: p)
    show "\<forall>k. wb_polls s \<le> k \<and> k < wb_polls s1 - 1 \<longrightarrow>
           g k \<noteq> Busy_msg ''ELBE-FINISH'' \<and> (\<forall>e. g k \<noteq> Poll_raises e)" using p by auto
    show "wb_events s1 = wb_events s @ concat (map (\<lambda>k. Ev_poll #
          (case g k of
             SocketError \<Rightarrow> [Ev_warn]
           | Poll_raises e \<Rightarrow> []
           | Busy_msg m \<Rightarrow>
               if m = [] then [Ev_sleep_100ms]
               else if m = ''ELBE-FINISH'' then [] else [Ev_yield m])) [wb_polls s..<wb_polls s1])"
      using ev by (simp add: p)
    show "\<exists>ys. wb_yielded s1 = wb_yielded s @ ys
            \<and> (\<forall>m\<in>set ys. m \<noteq> [] \<and> m \<noteq> ''ELBE-FINISH'')" by (rule yl)
  qed
  show ?case
  proof (cases b)
    case Break
    with Suc.prems body have eq: "r = None" "s' = s1" by simp_all
    from Break st have here: "g (wb_polls s) = Busy_msg ''ELBE-FINISH''"
      by (cases "g (wb_polls s)") (simp_all split: if_splits)
    show ?thesis unfolding eq by (rule one_pass) (use here in simp)
  next
    case (Raise e)
    with Suc.prems body have eq: "r = Some e" "s' = s1" by simp_all
    from Raise st have here: "g (wb_polls s) = Poll_raises e"
      by (cases "g (wb_polls s)") (simp_all split: if_splits)
    show ?thesis unfolding eq by (rule one_pass) (use here in simp)
  next
    case Continue
    with Suc.prems body have run: "wait_busy_loop n g s1 = Some (r, s')" by simp
    from Continue st have here: "g (wb_polls s) \<noteq> Busy_msg ''ELBE-FINISH''"
      "\<forall>e. g (wb_polls s) \<noteq> Poll_raises e"
      by (auto split: busy_resp.splits if_splits)
    note ih = Suc.IH [OF run]
    from ih p have lt: "wb_polls s < wb_polls s'" and le: "wb_polls s' \<le> wb_polls s + Suc n"
      by simp_all
    from ih have fin: "case r of
           None \<Rightarrow> g (wb_polls s' - 1) = Busy_msg ''ELBE-FINISH''
         | Some e \<Rightarrow> g (wb_polls s' - 1) = Poll_raises e" by (elim conjE)
    from ih have before1: "\<forall>k. wb_polls s1 \<le> k \<and> k < wb_polls s' - 1 \<longrightarrow>
           g k \<noteq> Busy_msg ''ELBE-FINISH'' \<and> (\<forall>e. g k \<noteq> Poll_raises e)" by (elim conjE)
    have before: "\<forall>k. wb_polls s \<le> k \<and> k < wb_polls s' - 1 \<longrightarrow>
           g k \<noteq> Busy_msg ''ELBE-FINISH'' \<and> (\<forall>e. g k \<noteq> Poll_raises e)"
    proof (intro allI impI)
      fix k assume k: "wb_polls s \<le> k \<and> k < wb_polls s' - 1"
      show "g k \<noteq> Busy_msg ''ELBE-FINISH'' \<and> (\<forall>e. g k \<noteq> Poll_raises e)"
      proof (cases "k = wb_polls s")
        case True
        with here show ?thesis by simp
      next
        case False
        with k p have "wb_polls s1 \<le> k \<and> k < wb_polls s' - 1" by simp
        with before1 show ?thesis by blast
      qed
    qed
    have upt: "[wb_polls s..<wb_polls s'] = wb_polls s # [wb_polls s1..<wb_polls s']"
      using lt p by (simp add: upt_conv_Cons)
    from ih have ev1: "wb_events s' = wb_events s1 @ concat (map (\<lambda>k. Ev_poll #
          (case g k of
             SocketError \<Rightarrow> [Ev_warn]
           | Poll_raises e \<Rightarrow> []
           | Busy_msg m \<Rightarrow>
               if m = [] then [Ev_sleep_100ms]
               else if m = ''ELBE-FINISH'' then [] else [Ev_yield m])) [wb_polls s1..<wb_polls s'])"
      by (elim conjE)
    have evs: "wb_events s' = wb_events s @ concat (map (\<lambda>k. Ev_poll #
          (case g k of
             SocketError \<Rightarrow> [Ev_warn]
           | Poll_raises e \<Rightarrow> []
           | Busy_msg m \<Rightarrow>
               if m = [] then [Ev_sleep_100ms]
               else if m = ''ELBE-FINISH'' then [] else [Ev_yield m])) [wb_polls s..<wb_polls s'])"
      using ev1 ev by (simp only: upt) simp
    from ih have "\<exists>ys. wb_yielded s' = wb_yielded s1 @ ys
            \<and> (\<forall>m\<in>set ys. m \<noteq> [] \<and> m \<noteq> ''ELBE-FINISH'')" by (elim conjE)
    then obtain ys where ys: "wb_yielded s' = wb_yielded s1 @ ys"
      "\<forall>m\<in>set ys. m \<noteq> [] \<and> m \<noteq> ''ELBE-FINISH''" by blast
    from yl obtain ys1 where ys1: "wb_yielded s1 = wb_yielded s @ ys1"
      "\<forall>m\<in>set ys1. m \<noteq> [] \<and> m \<noteq> ''ELBE-FINISH''" by blast
    have yld: "\<exists>ys. wb_yielded s' = wb_yielded s @ ys
            \<and> (\<forall>m\<in>set ys. m \<noteq> [] \<and> m \<noteq> ''ELBE-FINISH'')"
      using ys ys1 by (intro exI [of _ "ys1 @ ys"]) auto
    from lt le fin before evs yld show ?thesis by (intro conjI)
  qed
qed

text \<open>A poll that answers the sentinel, or raises, bounds the number of passes.\<close>

lemma wait_busy_loop_ends:
  "g (wb_polls s + j) = Busy_msg ''ELBE-FINISH'' \<Longrightarrow> j < n \<Longrightarrow>
     \<exists>r s'. wait_busy_loop n g s = Some (r, s')"
proof (induction n arbitrary: s j)
  case 0
  then show ?case by simp
next
  case (Suc n)
  obtain b s1 where body: "wait_busy_body g s = (b, s1)" by (cases "wait_busy_body g s")
  show ?case
  proof (cases b)
    case Break
    with body show ?thesis by simp
  next
    case (Raise e)
    with body show ?thesis by simp
  next
    case Continue
    with wait_busy_body_step [OF body] have nf: "g (wb_polls s) \<noteq> Busy_msg ''ELBE-FINISH''"
      by (auto split: busy_resp.splits if_splits)
    with Suc.prems(1) have "j \<noteq> 0" by (cases j) auto
    then obtain j' where j: "j = Suc j'" by (cases j) auto
    with Suc.prems wait_busy_body_polls [OF body]
    have "g (wb_polls s1 + j') = Busy_msg ''ELBE-FINISH''" "j' < n" by simp_all
    from Suc.IH [OF this] obtain r s' where "wait_busy_loop n g s1 = Some (r, s')" by blast
    with body Continue show ?thesis by simp
  qed
qed





text \<open>
  C6: when some poll is answered with the sentinel and the stream ends there cleanly, no
  poll before it raising an exception that leaves the generator, \<^verbatim>\<open>wait_busy\<close> comes to its
  end, makes exactly one \<^verbatim>\<open>get_project\<close> request, as the last thing it does, and its result
  is decided by the status answered there alone: it returns if the status is \<^verbatim>\<open>build_done\<close>
  and raises \<^verbatim>\<open>CliError\<close> with the code 191 otherwise.
\<close>

theorem final_status_decides:
  assumes "get_project_busy k = Busy_msg ''ELBE-FINISH''"
    and "\<forall>j<k. \<forall>e. get_project_busy j \<noteq> Poll_raises e"
  shows "\<exists>s. wait_busy (Suc k) get_project_busy prj_status =
             Some (if prj_status = ''build_done'' then Returned else Raised (CliError 191), s)
           \<and> count_list (wb_events s) Ev_get_project = 1
           \<and> last (wb_events s) = Ev_get_project"
proof -
  let ?s0 = "\<lparr>wb_polls = 0, wb_yielded = [], wb_events = []\<rparr>"
  from assms(1) have "get_project_busy (wb_polls ?s0 + k) = Busy_msg ''ELBE-FINISH''" by simp
  from wait_busy_loop_ends [of get_project_busy ?s0 k "Suc k"] this
  obtain r s1 where run: "wait_busy_loop (Suc k) get_project_busy ?s0 = Some (r, s1)" by auto
  note inv = wait_busy_loop_inv [OF run]
  from inv have before: "\<forall>j. j < wb_polls s1 - 1 \<longrightarrow>
      get_project_busy j \<noteq> Busy_msg ''ELBE-FINISH''" by simp
  have le: "wb_polls s1 - 1 \<le> k"
  proof (rule ccontr)
    assume "\<not> wb_polls s1 - 1 \<le> k"
    then have "k < wb_polls s1 - 1" by simp
    with before assms(1) show False by blast
  qed
  have r: "r = None"
  proof (cases r)
    case (Some e)
    with inv have raised: "get_project_busy (wb_polls s1 - 1) = Poll_raises e" by simp
    with assms(1) have "wb_polls s1 - 1 \<noteq> k" by auto
    with le have "wb_polls s1 - 1 < k" by simp
    with assms(2) raised show ?thesis by blast
  qed simp
  from inv
  have "wb_events s1 = concat (map (\<lambda>k. Ev_poll #
          (case get_project_busy k of
             SocketError \<Rightarrow> [Ev_warn]
           | Poll_raises e \<Rightarrow> []
           | Busy_msg m \<Rightarrow>
               if m = [] then [Ev_sleep_100ms]
               else if m = ''ELBE-FINISH'' then [] else [Ev_yield m])) [0..<wb_polls s1])"
    by simp
  then have "Ev_get_project \<notin> set (wb_events s1)"
    by (auto split: busy_resp.splits if_splits)
  then have "count_list (wb_events s1) Ev_get_project = 0"
    by (simp add: count_list_0_iff)
  with run r show ?thesis
    by (simp add: wait_busy_def Let_def del: wait_busy_loop.simps)
qed

theorem final_status_decides_witness:
  "\<exists>s. wait_busy 2 (\<lambda>k. [Busy_msg ''building'', Busy_msg ''ELBE-FINISH''] ! k) ''build_failed'' =
          Some (Raised (CliError 191), s)"
  using final_status_decides
    [of "\<lambda>k. [Busy_msg ''building'', Busy_msg ''ELBE-FINISH''] ! k" 1 "''build_failed''"]
  by (auto simp: numeral_2_eq_2)

subsection \<open>set_xml: the upload loop\<close>

lemma set_xml_body_calls:
  "set_xml_body reply s = (ro, s1) \<Longrightarrow>
     sx_calls s1 = sx_calls s @
       [(b2a_base64 (take blocksize (sx_unread s)),
         if length (b2a_base64 (take blocksize (sx_unread s))) = 1 then - 1 else sx_part s)]
     \<and> sx_unread s1 = drop blocksize (sx_unread s)
     \<and> sx_part s1 = reply (length (sx_calls s)) (b2a_base64 (take blocksize (sx_unread s)))
         (if length (b2a_base64 (take blocksize (sx_unread s))) = 1 then - 1 else sx_part s)
     \<and> ro = (if sx_part s1 = - 1 then Some (Raised RuntimeError)
             else if sx_part s1 = - 2 then Some Returned else None)"
  by (auto simp: set_xml_body_def Let_def split: if_splits)

lemma set_xml_loop_calls:
  assumes "set_xml_loop n reply s = Some (res, s')"
  shows "\<exists>new. sx_calls s' = sx_calls s @ new \<and> new \<noteq> [] \<and> length new \<le> n
    \<and> (\<forall>i<length new.
          fst (new ! i) = b2a_base64 (take blocksize (drop (i * blocksize) (sx_unread s))))
    \<and> (\<forall>i<length new.
          snd (new ! i) =
            (if length (fst (new ! i)) = 1 then - 1
             else if i = 0 then sx_part s
             else reply (length (sx_calls s) + (i - 1)) (fst (new ! (i - 1))) (snd (new ! (i - 1)))))
    \<and> (\<forall>i. Suc i < length new \<longrightarrow>
          reply (length (sx_calls s) + i) (fst (new ! i)) (snd (new ! i)) \<noteq> - 1
          \<and> reply (length (sx_calls s) + i) (fst (new ! i)) (snd (new ! i)) \<noteq> - 2)
    \<and> (res = Raised RuntimeError
          \<and> reply (length (sx_calls s) + (length new - 1)) (fst (last new)) (snd (last new)) = - 1
        \<or> res = Returned
          \<and> reply (length (sx_calls s) + (length new - 1)) (fst (last new)) (snd (last new)) = - 2)"
  using assms
proof (induction n arbitrary: s)
  case 0
  then show ?case by simp
next
  case (Suc n)
  obtain ro s1 where body: "set_xml_body reply s = (ro, s1)" by (cases "set_xml_body reply s")
  let ?d = "b2a_base64 (take blocksize (sx_unread s))"
  let ?x = "if length ?d = 1 then - 1 else sx_part s"
  let ?k = "length (sx_calls s)"
  from set_xml_body_calls [OF body]
  have calls1: "sx_calls s1 = sx_calls s @ [(?d, ?x)]"
    and unread1: "sx_unread s1 = drop blocksize (sx_unread s)"
    and part1: "sx_part s1 = reply ?k ?d ?x"
    and ro: "ro = (if sx_part s1 = - 1 then Some (Raised RuntimeError)
             else if sx_part s1 = - 2 then Some Returned else None)"
    by simp_all
  show ?case
  proof (cases ro)
    case (Some r)
    with Suc.prems body have "res = r" "s' = s1" by simp_all
    with Some ro part1 have fin: "res = Raised RuntimeError \<and> reply ?k ?d ?x = - 1
        \<or> res = Returned \<and> reply ?k ?d ?x = - 2"
      by (auto split: if_splits)
    show ?thesis
      using calls1 fin \<open>s' = s1\<close> by (intro exI [of _ "[(?d, ?x)]"]) simp
  next
    case None
    with Suc.prems body have run: "set_xml_loop n reply s1 = Some (res, s')" by simp
    from None ro part1 have cont: "reply ?k ?d ?x \<noteq> - 1" "reply ?k ?d ?x \<noteq> - 2"
      by (auto split: if_splits)
    from Suc.IH [OF run] obtain new where
      c: "sx_calls s' = sx_calls s1 @ new" and ne: "new \<noteq> []" and len: "length new \<le> n"
      and A: "\<forall>i<length new.
          fst (new ! i) = b2a_base64 (take blocksize (drop (i * blocksize) (sx_unread s1)))"
      and B: "\<forall>i<length new.
          snd (new ! i) =
            (if length (fst (new ! i)) = 1 then - 1
             else if i = 0 then sx_part s1
             else reply (length (sx_calls s1) + (i - 1)) (fst (new ! (i - 1))) (snd (new ! (i - 1))))"
      and C: "\<forall>i. Suc i < length new \<longrightarrow>
          reply (length (sx_calls s1) + i) (fst (new ! i)) (snd (new ! i)) \<noteq> - 1
          \<and> reply (length (sx_calls s1) + i) (fst (new ! i)) (snd (new ! i)) \<noteq> - 2"
      and D: "res = Raised RuntimeError
          \<and> reply (length (sx_calls s1) + (length new - 1)) (fst (last new)) (snd (last new)) = - 1
        \<or> res = Returned
          \<and> reply (length (sx_calls s1) + (length new - 1)) (fst (last new)) (snd (last new)) = - 2"
      by (elim exE conjE) (rule that; assumption)
    let ?new = "(?d, ?x) # new"
    have k1: "length (sx_calls s1) = Suc ?k" using calls1 by simp
    have c': "sx_calls s' = sx_calls s @ ?new" using c calls1 by simp
    have A': "\<forall>i<length ?new.
          fst (?new ! i) = b2a_base64 (take blocksize (drop (i * blocksize) (sx_unread s)))"
    proof (intro allI impI)
      fix i assume i: "i < length ?new"
      show "fst (?new ! i) = b2a_base64 (take blocksize (drop (i * blocksize) (sx_unread s)))"
      proof (cases i)
        case 0
        then show ?thesis by simp
      next
        case (Suc j)
        with i have "j < length new" by simp
        with A have "fst (new ! j) =
            b2a_base64 (take blocksize (drop (j * blocksize) (sx_unread s1)))" by blast
        with Suc unread1 show ?thesis by (simp add: add.commute)
      qed
    qed
    have B': "\<forall>i<length ?new.
          snd (?new ! i) =
            (if length (fst (?new ! i)) = 1 then - 1
             else if i = 0 then sx_part s
             else reply (?k + (i - 1)) (fst (?new ! (i - 1))) (snd (?new ! (i - 1))))"
    proof (intro allI impI)
      fix i assume i: "i < length ?new"
      show "snd (?new ! i) =
            (if length (fst (?new ! i)) = 1 then - 1
             else if i = 0 then sx_part s
             else reply (?k + (i - 1)) (fst (?new ! (i - 1))) (snd (?new ! (i - 1))))"
      proof (cases i)
        case 0
        then show ?thesis by simp
      next
        case (Suc j)
        with i have j: "j < length new" by simp
        from B j have Bj: "snd (new ! j) =
            (if length (fst (new ! j)) = 1 then - 1
             else if j = 0 then sx_part s1
             else reply (length (sx_calls s1) + (j - 1)) (fst (new ! (j - 1))) (snd (new ! (j - 1))))"
          by blast
        show ?thesis
        proof (cases j)
          case 0
          with Bj Suc part1 show ?thesis by simp
        next
          case (Suc m)
          with Bj \<open>i = Suc j\<close> k1 show ?thesis by simp
        qed
      qed
    qed
    have C': "\<forall>i. Suc i < length ?new \<longrightarrow>
          reply (?k + i) (fst (?new ! i)) (snd (?new ! i)) \<noteq> - 1
          \<and> reply (?k + i) (fst (?new ! i)) (snd (?new ! i)) \<noteq> - 2"
    proof (intro allI impI)
      fix i assume i: "Suc i < length ?new"
      show "reply (?k + i) (fst (?new ! i)) (snd (?new ! i)) \<noteq> - 1
          \<and> reply (?k + i) (fst (?new ! i)) (snd (?new ! i)) \<noteq> - 2"
      proof (cases i)
        case 0
        with cont show ?thesis by simp
      next
        case (Suc j)
        with i have "Suc j < length new" by simp
        with C k1 Suc show ?thesis by simp
      qed
    qed
    have D': "res = Raised RuntimeError
          \<and> reply (?k + (length ?new - 1)) (fst (last ?new)) (snd (last ?new)) = - 1
        \<or> res = Returned
          \<and> reply (?k + (length ?new - 1)) (fst (last ?new)) (snd (last ?new)) = - 2"
    proof -
      from ne have "?k + (length ?new - 1) = length (sx_calls s1) + (length new - 1)"
        using k1 by (cases new) simp_all
      moreover from ne have "last ?new = last new" by simp
      ultimately show ?thesis using D by simp
    qed
    have ne': "?new \<noteq> []" by simp
    have len': "length ?new \<le> Suc n" using len by simp
    show ?thesis
      using c' ne' len' A' B' C' D' by (intro exI [of _ ?new] conjI) assumption+
  qed
qed

lemma set_xml_loop_ends:
  assumes "\<forall>d x. reply (length (sx_calls s) + j) d x = - 1 \<or> reply (length (sx_calls s) + j) d x = - 2"
    and "j < n"
  shows "\<exists>res s'. set_xml_loop n reply s = Some (res, s')"
  using assms
proof (induction n arbitrary: s j)
  case 0
  then show ?case by simp
next
  case (Suc n)
  obtain ro s1 where body: "set_xml_body reply s = (ro, s1)" by (cases "set_xml_body reply s")
  note b = set_xml_body_calls [OF body]
  show ?case
  proof (cases ro)
    case (Some r)
    with body show ?thesis by simp
  next
    case None
    have "j \<noteq> 0"
    proof
      assume "j = 0"
      with Suc.prems(1) b have "sx_part s1 = - 1 \<or> sx_part s1 = - 2" by simp
      with b None show False by (auto split: if_splits)
    qed
    then obtain j' where j: "j = Suc j'" by (cases j) auto
    from b have "length (sx_calls s1) = Suc (length (sx_calls s))" by simp
    with Suc.prems j have
      "\<forall>d x. reply (length (sx_calls s1) + j') d x = - 1 \<or> reply (length (sx_calls s1) + j') d x = - 2"
      "j' < n" by simp_all
    from Suc.IH [OF this] body None show ?thesis by simp
  qed
qed

text \<open>
  C1: in a run of the upload loop of \<^verbatim>\<open>set_xml\<close> that has come to its end, the \<open>i\<close>-th request
  carries the \<open>i\<close>-th block of the document, encoded; the index sent with it is the final
  marker \<open>-1\<close> when the encoded block is empty (of length 1), is \<open>0\<close> for the first request,
  and otherwise is exactly the answer of the service to the request before. No answer
  before the last is \<open>-1\<close> or \<open>-2\<close>; the answer to the last request is \<open>-1\<close> and the run has
  raised \<^verbatim>\<open>RuntimeError\<close>, or it is \<open>-2\<close> and the run has returned: no request follows a
  reject or a complete. And a service that answers \<open>-1\<close> or \<open>-2\<close> to its \<open>k\<close>-th request
  brings the loop to its end within \<open>k + 1\<close> requests.
\<close>

theorem set_xml_echoes_granted_index:
  "(set_xml n True reply doc = Some (res, s) \<longrightarrow>
      sx_calls s \<noteq> [] \<and> length (sx_calls s) \<le> n
      \<and> (\<forall>i<length (sx_calls s).
            fst (sx_calls s ! i) = b2a_base64 (take blocksize (drop (i * blocksize) doc)))
      \<and> (\<forall>i<length (sx_calls s).
            snd (sx_calls s ! i) =
              (if length (fst (sx_calls s ! i)) = 1 then - 1
               else if i = 0 then 0
               else reply (i - 1) (fst (sx_calls s ! (i - 1))) (snd (sx_calls s ! (i - 1)))))
      \<and> (\<forall>i. Suc i < length (sx_calls s) \<longrightarrow>
            reply i (fst (sx_calls s ! i)) (snd (sx_calls s ! i)) \<noteq> - 1
            \<and> reply i (fst (sx_calls s ! i)) (snd (sx_calls s ! i)) \<noteq> - 2)
      \<and> (res = Raised RuntimeError
            \<and> reply (length (sx_calls s) - 1) (fst (last (sx_calls s))) (snd (last (sx_calls s))) = - 1
          \<or> res = Returned
            \<and> reply (length (sx_calls s) - 1) (fst (last (sx_calls s))) (snd (last (sx_calls s))) = - 2))
   \<and> ((\<forall>d x. reply k d x = - 1 \<or> reply k d x = - 2) \<longrightarrow>
        (\<exists>res' s'. set_xml (Suc k) True reply doc = Some (res', s')))"
proof (rule conjI; rule impI)
  let ?s0 = "\<lparr>sx_unread = doc, sx_part = 0, sx_calls = []\<rparr>"
  assume "\<forall>d x. reply k d x = - 1 \<or> reply k d x = - 2"
  then have "\<forall>d x. reply (length (sx_calls ?s0) + k) d x = - 1
      \<or> reply (length (sx_calls ?s0) + k) d x = - 2" by simp
  from set_xml_loop_ends [of reply ?s0 k "Suc k"] this
  show "\<exists>res' s'. set_xml (Suc k) True reply doc = Some (res', s')"
    by (simp add: set_xml_def del: set_xml_loop.simps)
next
  let ?s0 = "\<lparr>sx_unread = doc, sx_part = 0, sx_calls = []\<rparr>"
  assume "set_xml n True reply doc = Some (res, s)"
  then have run: "set_xml_loop n reply ?s0 = Some (res, s)" by (simp add: set_xml_def)
  have "\<exists>new. sx_calls s = sx_calls ?s0 @ new \<and> new \<noteq> [] \<and> length new \<le> n
    \<and> (\<forall>i<length new.
          fst (new ! i) = b2a_base64 (take blocksize (drop (i * blocksize) (sx_unread ?s0))))
    \<and> (\<forall>i<length new.
          snd (new ! i) =
            (if length (fst (new ! i)) = 1 then - 1
             else if i = 0 then sx_part ?s0
             else reply (length (sx_calls ?s0) + (i - 1)) (fst (new ! (i - 1))) (snd (new ! (i - 1)))))
    \<and> (\<forall>i. Suc i < length new \<longrightarrow>
          reply (length (sx_calls ?s0) + i) (fst (new ! i)) (snd (new ! i)) \<noteq> - 1
          \<and> reply (length (sx_calls ?s0) + i) (fst (new ! i)) (snd (new ! i)) \<noteq> - 2)
    \<and> (res = Raised RuntimeError
          \<and> reply (length (sx_calls ?s0) + (length new - 1)) (fst (last new)) (snd (last new)) = - 1
        \<or> res = Returned
          \<and> reply (length (sx_calls ?s0) + (length new - 1)) (fst (last new)) (snd (last new)) = - 2)"
    by (rule set_xml_loop_calls [OF run])
  then obtain new where eq: "sx_calls s = sx_calls ?s0 @ new" and H: "new \<noteq> [] \<and> length new \<le> n
    \<and> (\<forall>i<length new.
          fst (new ! i) = b2a_base64 (take blocksize (drop (i * blocksize) (sx_unread ?s0))))
    \<and> (\<forall>i<length new.
          snd (new ! i) =
            (if length (fst (new ! i)) = 1 then - 1
             else if i = 0 then sx_part ?s0
             else reply (length (sx_calls ?s0) + (i - 1)) (fst (new ! (i - 1))) (snd (new ! (i - 1)))))
    \<and> (\<forall>i. Suc i < length new \<longrightarrow>
          reply (length (sx_calls ?s0) + i) (fst (new ! i)) (snd (new ! i)) \<noteq> - 1
          \<and> reply (length (sx_calls ?s0) + i) (fst (new ! i)) (snd (new ! i)) \<noteq> - 2)
    \<and> (res = Raised RuntimeError
          \<and> reply (length (sx_calls ?s0) + (length new - 1)) (fst (last new)) (snd (last new)) = - 1
        \<or> res = Returned
          \<and> reply (length (sx_calls ?s0) + (length new - 1)) (fst (last new)) (snd (last new)) = - 2)"
    by (elim exE conjE) (intro that conjI; assumption)
  from eq have new: "new = sx_calls s" by simp
  from H have ne: "sx_calls s \<noteq> []" and len: "length (sx_calls s) \<le> n"
    unfolding new by simp_all
  from H have A: "\<forall>i<length (sx_calls s).
      fst (sx_calls s ! i) = b2a_base64 (take blocksize (drop (i * blocksize) doc))"
    unfolding new by simp
  have B: "\<forall>i<length (sx_calls s).
      snd (sx_calls s ! i) =
        (if length (fst (sx_calls s ! i)) = 1 then - 1
         else if i = 0 then 0
         else reply (i - 1) (fst (sx_calls s ! (i - 1))) (snd (sx_calls s ! (i - 1))))"
  proof (intro allI impI)
    fix i assume "i < length (sx_calls s)"
    with H have "snd (new ! i) =
            (if length (fst (new ! i)) = 1 then - 1
             else if i = 0 then sx_part ?s0
             else reply (length (sx_calls ?s0) + (i - 1)) (fst (new ! (i - 1))) (snd (new ! (i - 1))))"
      unfolding new by blast
    then show "snd (sx_calls s ! i) =
        (if length (fst (sx_calls s ! i)) = 1 then - 1
         else if i = 0 then 0
         else reply (i - 1) (fst (sx_calls s ! (i - 1))) (snd (sx_calls s ! (i - 1))))"
      unfolding new by simp
  qed
  from H have C: "\<forall>i. Suc i < length (sx_calls s) \<longrightarrow>
      reply i (fst (sx_calls s ! i)) (snd (sx_calls s ! i)) \<noteq> - 1
      \<and> reply i (fst (sx_calls s ! i)) (snd (sx_calls s ! i)) \<noteq> - 2"
    unfolding new by (elim conjE) simp
  from H have D: "res = Raised RuntimeError
        \<and> reply (length (sx_calls s) - 1) (fst (last (sx_calls s))) (snd (last (sx_calls s))) = - 1
      \<or> res = Returned
        \<and> reply (length (sx_calls s) - 1) (fst (last (sx_calls s))) (snd (last (sx_calls s))) = - 2"
    unfolding new by (elim conjE) simp
  show "sx_calls s \<noteq> [] \<and> length (sx_calls s) \<le> n
      \<and> (\<forall>i<length (sx_calls s).
            fst (sx_calls s ! i) = b2a_base64 (take blocksize (drop (i * blocksize) doc)))
      \<and> (\<forall>i<length (sx_calls s).
            snd (sx_calls s ! i) =
              (if length (fst (sx_calls s ! i)) = 1 then - 1
               else if i = 0 then 0
               else reply (i - 1) (fst (sx_calls s ! (i - 1))) (snd (sx_calls s ! (i - 1)))))
      \<and> (\<forall>i. Suc i < length (sx_calls s) \<longrightarrow>
            reply i (fst (sx_calls s ! i)) (snd (sx_calls s ! i)) \<noteq> - 1
            \<and> reply i (fst (sx_calls s ! i)) (snd (sx_calls s ! i)) \<noteq> - 2)
      \<and> (res = Raised RuntimeError
            \<and> reply (length (sx_calls s) - 1) (fst (last (sx_calls s))) (snd (last (sx_calls s))) = - 1
          \<or> res = Returned
            \<and> reply (length (sx_calls s) - 1) (fst (last (sx_calls s))) (snd (last (sx_calls s))) = - 2)"
    by (intro conjI) (rule ne len A B C D)+
qed

theorem set_xml_echoes_granted_index_witness:
  "set_xml 3 True (\<lambda>k d x. if k = 0 then 5 else if k = 1 then 6 else - 2)
       (replicate (blocksize + 1) 0) =
     Some (Returned,
       \<lparr>sx_unread = [], sx_part = - 2,
        sx_calls = [(b2a_base64 (replicate blocksize 0), 0), (b2a_base64 [0], 5),
                    (b2a_base64 [], - 1)]\<rparr>)
   \<and> snd ([(b2a_base64 (replicate blocksize 0), 0), (b2a_base64 [0], 5),
            (b2a_base64 [], - 1 :: int)] ! 1) = 5"
proof -
  let ?R = "\<lambda>(k :: nat) (d :: string) (x :: int). if k = 0 then 5 else if k = 1 then 6 else (- 2 :: int)"
  let ?S = "\<lparr>sx_unread = [], sx_part = - 2,
        sx_calls = [(b2a_base64 (replicate blocksize 0), 0), (b2a_base64 [0], 5),
                    (b2a_base64 [], - 1)]\<rparr>"
  have t: "take blocksize (replicate (blocksize + 1) (0 :: byte)) = replicate blocksize 0"
    by (simp only: take_replicate) simp
  have d: "drop blocksize (replicate (blocksize + 1) (0 :: byte)) = [0]"
    by (simp only: drop_replicate) simp
  have len1: "\<And>bs. length (b2a_base64 bs) = Suc 0 \<longleftrightarrow> bs = []"
    using b2a_len1 by simp
  have run: "set_xml 3 True ?R (replicate (blocksize + 1) 0) = Some (Returned, ?S)"
    using blocksize_pos
    by (simp add: set_xml_def set_xml_body_def Let_def len1 t d numeral_3_eq_3
        del: replicate.simps) simp
  from set_xml_echoes_granted_index
    [of 3 ?R "replicate (blocksize + 1) 0" Returned ?S 0, THEN conjunct1, THEN mp, OF run]
  have "\<forall>i<length (sx_calls ?S).
            snd (sx_calls ?S ! i) =
              (if length (fst (sx_calls ?S ! i)) = 1 then - 1
               else if i = 0 then 0
               else ?R (i - 1) (fst (sx_calls ?S ! (i - 1))) (snd (sx_calls ?S ! (i - 1))))"
    by (elim conjE)
  then have "snd (sx_calls ?S ! 1) =
              (if length (fst (sx_calls ?S ! 1)) = 1 then - 1
               else if (1::nat) = 0 then 0
               else ?R (1 - 1) (fst (sx_calls ?S ! (1 - 1))) (snd (sx_calls ?S ! (1 - 1))))"
    by (elim allE [of _ 1]) simp
  then have "snd ([(b2a_base64 (replicate blocksize 0), 0), (b2a_base64 [0], 5),
            (b2a_base64 [], - 1 :: int)] ! 1) = 5"
    using blocksize_pos by (simp add: len1)
  with run show ?thesis by (intro conjI)
qed

subsection \<open>The upload primitive and the download against the server\<close>

declare upload_file.simps [simp del]

lemma upload_file_short:
  "length f < blocksize \<Longrightarrow> upload_file f = [b2a_base64 f]"
  by (subst upload_file.simps) simp

lemma upload_file_full:
  "blocksize \<le> length f \<Longrightarrow>
     upload_file f = b2a_base64 (take blocksize f) # upload_file (drop blocksize f)"
  by (subst upload_file.simps) simp




lemma server_append_upload: "server_append stored (upload_file f) = Inr (stored @ f)"
proof (induction f arbitrary: stored rule: upload_file.induct)
  case (1 f)
  show ?case
  proof (cases "length f < blocksize")
    case True
    then show ?thesis by (simp add: upload_file_short a2b_b2a)
  next
    case False
    then have ge: "blocksize \<le> length f" by simp
    then have "length (take blocksize f) = blocksize" by simp
    with 1 have "server_append (stored @ take blocksize f) (upload_file (drop blocksize f)) =
        Inr ((stored @ take blocksize f) @ drop blocksize f)" by simp
    then show ?thesis using ge by (simp add: upload_file_full a2b_b2a)
  qed
qed

text \<open>The number of chunks the server has to serve.\<close>

lemma chunks_le:
  "length stored \<le> p * blocksize \<longleftrightarrow> (length stored + blocksize - 1) div blocksize \<le> p"
proof -
  have "Suc p \<le> (length stored + blocksize - 1) div blocksize
      \<longleftrightarrow> Suc p * blocksize \<le> length stored + blocksize - 1"
    using blocksize_pos by (simp add: less_eq_div_iff_mult_less_eq)
  also have "\<dots> \<longleftrightarrow> p * blocksize < length stored"
    using blocksize_pos by (cases "length stored") auto
  finally show ?thesis by linarith
qed

lemma download_body_eof:
  assumes "length stored \<le> dl_part s * blocksize"
  shows "download_body (server_get_file stored) s =
           (Some Returned,
            s\<lparr>dl_calls := dl_calls s @ [dl_part s], dl_ret := Some ''EndOfFile'',
              fp_closed := True\<rparr>)"
  using assms by (simp add: download_body_def download_rest_def server_get_file_def)

lemma download_body_chunk:
  assumes "\<not> length stored \<le> dl_part s * blocksize"
  shows "download_body (server_get_file stored) s =
           (None,
            s\<lparr>dl_calls := dl_calls s @ [dl_part s],
              dl_ret := Some (b2a_base64 (take blocksize (drop (dl_part s * blocksize) stored))),
              fp_data := fp_data s @ take blocksize (drop (dl_part s * blocksize) stored),
              dl_part := dl_part s + 1\<rparr>)"
  using assms
  by (simp add: download_body_def download_rest_def server_get_file_def b2a_not_eof a2b_b2a)

lemma download_loop_server:
  assumes "dl_part s + m = (length stored + blocksize - 1) div blocksize"
  shows "\<exists>s'. download_loop (Suc m) (server_get_file stored) s = Some (Returned, s')
      \<and> dl_calls s' = dl_calls s @ [dl_part s..<dl_part s + m + 1]
      \<and> fp_data s' = fp_data s @ drop (dl_part s * blocksize) stored
      \<and> fp_closed s' \<and> dl_retry s' = dl_retry s \<and> dl_stderr s' = dl_stderr s"
  using assms
proof (induction m arbitrary: s)
  case 0
  then have "length stored \<le> dl_part s * blocksize" by (simp add: chunks_le)
  then show ?case by (simp add: download_body_eof)
next
  case (Suc m)
  let ?c = "take blocksize (drop (dl_part s * blocksize) stored)"
  let ?s1 = "s\<lparr>dl_calls := dl_calls s @ [dl_part s], dl_ret := Some (b2a_base64 ?c),
              fp_data := fp_data s @ ?c, dl_part := dl_part s + 1\<rparr>"
  from Suc.prems have "\<not> length stored \<le> dl_part s * blocksize" by (simp add: chunks_le)
  then have body: "download_body (server_get_file stored) s = (None, ?s1)"
    by (rule download_body_chunk)
  from Suc.prems have "dl_part ?s1 + m = (length stored + blocksize - 1) div blocksize" by simp
  from Suc.IH [OF this] obtain s' where
    run: "download_loop (Suc m) (server_get_file stored) ?s1 = Some (Returned, s')"
    and calls: "dl_calls s' = dl_calls ?s1 @ [dl_part ?s1..<dl_part ?s1 + m + 1]"
    and data: "fp_data s' = fp_data ?s1 @ drop (dl_part ?s1 * blocksize) stored"
    and rest: "fp_closed s'" "dl_retry s' = dl_retry ?s1" "dl_stderr s' = dl_stderr ?s1"
    by blast
  have "download_loop (Suc (Suc m)) (server_get_file stored) s = Some (Returned, s')"
    using body run by (simp del: download_loop.simps add: download_loop.simps(2) [of "Suc m"])
  moreover have "dl_calls s' = dl_calls s @ [dl_part s..<dl_part s + Suc m + 1]"
    using calls by (simp add: upt_conv_Cons)
  moreover have "fp_data s' = fp_data s @ drop (dl_part s * blocksize) stored"
  proof -
    have "?c @ drop (blocksize + dl_part s * blocksize) stored = drop (dl_part s * blocksize) stored"
      using append_take_drop_id [of blocksize "drop (dl_part s * blocksize) stored"]
      by simp
    with data show ?thesis by (simp add: add.commute)
  qed
  ultimately show ?case using rest by simp
qed

lemma download_file_server:
  "\<exists>s. download_file ((length f + blocksize - 1) div blocksize + 1) (server_get_file f) =
         Some (Returned, s)
       \<and> dl_calls s = [0..<(length f + blocksize - 1) div blocksize + 1]
       \<and> fp_data s = f \<and> fp_closed s"
proof -
  have "dl_part download_init + (length f + blocksize - 1) div blocksize =
      (length f + blocksize - 1) div blocksize"
    by (simp add: download_init_def)
  from download_loop_server [OF this] show ?thesis
    by (auto simp: download_file_def download_init_def simp del: download_loop.simps)
qed



text \<open>
  C9: when the blocks that the upload primitive appends for a file \<open>f\<close> are stored by the
  server, and the stored file is then fetched with \<^verbatim>\<open>download_file\<close>, the download returns
  with the destination closed and holding exactly \<open>f\<close>, for every \<open>f\<close>, the empty file too.
\<close>

theorem upload_download_round_trip:
  "\<exists>stored n s. server_append [] (upload_file f) = Inr stored
     \<and> download_file n (server_get_file stored) = Some (Returned, s)
     \<and> fp_data s = f \<and> fp_closed s"
proof -
  have "server_append [] (upload_file f) = Inr f"
    using server_append_upload [of "[]" f] by simp
  moreover from download_file_server [of f] obtain s where
    "download_file ((length f + blocksize - 1) div blocksize + 1) (server_get_file f) =
       Some (Returned, s)" "fp_data s = f" "fp_closed s" by blast
  ultimately show ?thesis by blast
qed

theorem upload_download_round_trip_witness:
  "\<exists>stored n s. server_append [] (upload_file []) = Inr stored
     \<and> download_file n (server_get_file stored) = Some (Returned, s)
     \<and> fp_data s = [] \<and> fp_closed s"
  by (rule upload_download_round_trip [of "[]"])

subsection \<open>download_file and its retry budget\<close>

lemmas download_body_unfold = download_body_def download_rest_def Let_def

lemma download_body_calls:
  "download_body g s = (ro, s1) \<Longrightarrow> dl_calls s1 = dl_calls s @ [dl_part s]"
  by (auto simp: download_body_unfold
      split: get_file_resp.splits option.splits if_splits sum.splits)

lemma download_body_retry:
  "download_body g s = (ro, s1) \<Longrightarrow>
     dl_retry s1 =
       (if g (length (dl_calls s)) (dl_part s) = BadStatusLine then dl_retry s - 1
        else dl_retry s)"
  by (auto simp: download_body_unfold
      split: get_file_resp.splits option.splits if_splits sum.splits)

lemma download_body_exit:
  "download_body g s = (ro, s1) \<Longrightarrow>
     ro = Some (SysExit 170) \<longleftrightarrow>
       g (length (dl_calls s)) (dl_part s) = BadStatusLine \<and> dl_retry s = 1"
  by (auto simp: download_body_unfold
      split: get_file_resp.splits option.splits if_splits sum.splits)

lemma download_body_closed:
  "download_body g s = (Some (SysExit 170), s1) \<Longrightarrow>
     fp_closed s1 \<and> fp_data s1 = fp_data s \<and> last (dl_stderr s1) = File_transfer_failed"
  by (auto simp: download_body_unfold
      split: get_file_resp.splits option.splits if_splits sum.splits)

lemma download_body_data:
  "download_body g s = (ro, s1) \<Longrightarrow> \<exists>w. fp_data s1 = fp_data s @ w"
  by (auto simp: download_body_unfold
      split: get_file_resp.splits option.splits if_splits sum.splits)

lemma download_loop_budget:
  assumes "download_loop n g s0 = Some (res, s)" and "0 < dl_retry s0"
  shows "(\<exists>new. dl_calls s = dl_calls s0 @ new \<and> new \<noteq> [])
    \<and> dl_retry s = dl_retry s0 - int (length (filter
          (\<lambda>k. g k (dl_calls s ! k) = BadStatusLine) [length (dl_calls s0)..<length (dl_calls s)]))
    \<and> (res = SysExit 170 \<longleftrightarrow> dl_retry s = 0)
    \<and> (res = SysExit 170 \<longrightarrow>
          fp_closed s \<and> last (dl_stderr s) = File_transfer_failed
          \<and> g (length (dl_calls s) - 1) (last (dl_calls s)) = BadStatusLine)
    \<and> (\<exists>w. fp_data s = fp_data s0 @ w)"
  using assms
proof (induction n arbitrary: s0)
  case 0
  then show ?case by simp
next
  case (Suc n)
  obtain ro s1 where body: "download_body g s0 = (ro, s1)" by (cases "download_body g s0")
  let ?k = "length (dl_calls s0)"
  let ?e = "g ?k (dl_part s0) = BadStatusLine"
  note calls1 = download_body_calls [OF body] and retry1 = download_body_retry [OF body]
    and exit1 = download_body_exit [OF body] and data1 = download_body_data [OF body]
  have len1: "length (dl_calls s1) = Suc ?k" using calls1 by simp
  show ?case
  proof (cases ro)
    case (Some r)
    with Suc.prems body have eq: "res = r" "s = s1" by simp_all
    have c: "\<exists>new. dl_calls s = dl_calls s0 @ new \<and> new \<noteq> []" using calls1 eq by simp
    have upt: "[?k..<length (dl_calls s1)] = [?k]" using len1 by simp
    have nth: "dl_calls s1 ! ?k = dl_part s0" using calls1 by simp
    have r: "dl_retry s = dl_retry s0 - int (length (filter
          (\<lambda>k. g k (dl_calls s ! k) = BadStatusLine) [?k..<length (dl_calls s)]))"
      unfolding eq(2) using retry1 nth by (simp add: upt)
    have x: "res = SysExit 170 \<longleftrightarrow> dl_retry s = 0"
    proof
      assume "res = SysExit 170"
      with exit1 Some eq retry1 show "dl_retry s = 0" by simp
    next
      assume "dl_retry s = 0"
      with retry1 eq Suc.prems(2) have "?e \<and> dl_retry s0 = 1" by (auto split: if_splits)
      with exit1 Some eq show "res = SysExit 170" by simp
    qed
    have y: "res = SysExit 170 \<longrightarrow>
          fp_closed s \<and> last (dl_stderr s) = File_transfer_failed
          \<and> g (length (dl_calls s) - 1) (last (dl_calls s)) = BadStatusLine"
    proof
      assume r170: "res = SysExit 170"
      with body Some eq have "download_body g s0 = (Some (SysExit 170), s)" by simp
      from download_body_closed [OF this]
      have "fp_closed s" "last (dl_stderr s) = File_transfer_failed" by simp_all
      moreover from r170 exit1 Some eq have ?e by simp
      moreover have "length (dl_calls s) - 1 = ?k" "last (dl_calls s) = dl_part s0"
        using calls1 eq by simp_all
      ultimately show "fp_closed s \<and> last (dl_stderr s) = File_transfer_failed
          \<and> g (length (dl_calls s) - 1) (last (dl_calls s)) = BadStatusLine" by simp
    qed
    have w: "\<exists>w. fp_data s = fp_data s0 @ w" using data1 eq by simp
    from c r x y w show ?thesis by (intro conjI)
  next
    case None
    with Suc.prems body have run: "download_loop n g s1 = Some (res, s)" by simp
    from None exit1 have ne: "\<not> (?e \<and> dl_retry s0 = 1)" by simp
    with retry1 Suc.prems(2) have pos1: "0 < dl_retry s1" by (auto split: if_splits)
    note ih = Suc.IH [OF run pos1]
    from ih have "\<exists>new. dl_calls s = dl_calls s1 @ new \<and> new \<noteq> []" by (elim conjE)
    then obtain new where c1: "dl_calls s = dl_calls s1 @ new" "new \<noteq> []" by blast
    from ih have r1: "dl_retry s = dl_retry s1 - int (length (filter
          (\<lambda>k. g k (dl_calls s ! k) = BadStatusLine) [length (dl_calls s1)..<length (dl_calls s)]))"
      by (elim conjE)
    from ih have x1: "res = SysExit 170 \<longleftrightarrow> dl_retry s = 0" by (elim conjE)
    from ih have y1: "res = SysExit 170 \<longrightarrow>
          fp_closed s \<and> last (dl_stderr s) = File_transfer_failed
          \<and> g (length (dl_calls s) - 1) (last (dl_calls s)) = BadStatusLine"
      by (elim conjE)
    from ih have w1: "\<exists>w. fp_data s = fp_data s1 @ w" by (elim conjE)
    have c: "\<exists>new. dl_calls s = dl_calls s0 @ new \<and> new \<noteq> []"
      using c1 calls1 by simp
    have lt: "?k < length (dl_calls s)" using c1 calls1 by simp
    have upt: "[?k..<length (dl_calls s)] = ?k # [length (dl_calls s1)..<length (dl_calls s)]"
      using lt len1 by (simp add: upt_conv_Cons)
    have nth: "dl_calls s ! ?k = dl_part s0" using c1 calls1 by (simp add: nth_append)
    have r: "dl_retry s = dl_retry s0 - int (length (filter
          (\<lambda>k. g k (dl_calls s ! k) = BadStatusLine) [?k..<length (dl_calls s)]))"
      using r1 retry1 nth by (simp only: upt) simp
    have w: "\<exists>w. fp_data s = fp_data s0 @ w"
    proof -
      from w1 obtain a where "fp_data s = fp_data s1 @ a" by blast
      moreover from data1 obtain b where "fp_data s1 = fp_data s0 @ b" by blast
      ultimately have "fp_data s = fp_data s0 @ (b @ a)" by simp
      then show ?thesis by blast
    qed
    from c r x1 y1 w show ?thesis by (intro conjI)
  qed
qed

lemma download_loop_ends:
  assumes "\<forall>k p. length (dl_calls s0) + j \<le> k \<longrightarrow> g k p = BadStatusLine"
    and "0 < dl_retry s0" and "j + nat (dl_retry s0) \<le> n"
  shows "\<exists>res s. download_loop n g s0 = Some (res, s)"
  using assms
proof (induction n arbitrary: s0 j)
  case 0
  then show ?case by simp
next
  case (Suc n)
  obtain ro s1 where body: "download_body g s0 = (ro, s1)" by (cases "download_body g s0")
  note calls1 = download_body_calls [OF body] and retry1 = download_body_retry [OF body]
    and exit1 = download_body_exit [OF body]
  show ?case
  proof (cases ro)
    case (Some r)
    with body show ?thesis by simp
  next
    case None
    with exit1 have ne: "\<not> (g (length (dl_calls s0)) (dl_part s0) = BadStatusLine
        \<and> dl_retry s0 = 1)" by simp
    with retry1 Suc.prems(2) have pos1: "0 < dl_retry s1" by (auto split: if_splits)
    have len1: "length (dl_calls s1) = Suc (length (dl_calls s0))" using calls1 by simp
    have "\<exists>j'. (\<forall>k p. length (dl_calls s1) + j' \<le> k \<longrightarrow> g k p = BadStatusLine)
        \<and> j' + nat (dl_retry s1) \<le> n"
    proof (cases j)
      case 0
      with Suc.prems(1) have e: "g (length (dl_calls s0)) (dl_part s0) = BadStatusLine" by simp
      with retry1 have "dl_retry s1 = dl_retry s0 - 1" by simp
      with Suc.prems(2,3) 0 have "0 + nat (dl_retry s1) \<le> n" by simp
      moreover from Suc.prems(1) 0 len1
      have "\<forall>k p. length (dl_calls s1) + 0 \<le> k \<longrightarrow> g k p = BadStatusLine" by simp
      ultimately show ?thesis by blast
    next
      case (Suc j')
      from retry1 have "dl_retry s1 \<le> dl_retry s0" by (simp split: if_splits)
      with Suc.prems(3) Suc have "j' + nat (dl_retry s1) \<le> n" by simp
      moreover from Suc.prems(1) Suc len1
      have "\<forall>k p. length (dl_calls s1) + j' \<le> k \<longrightarrow> g k p = BadStatusLine" by simp
      ultimately show ?thesis by blast
    qed
    then obtain j' where "\<forall>k p. length (dl_calls s1) + j' \<le> k \<longrightarrow> g k p = BadStatusLine"
      "j' + nat (dl_retry s1) \<le> n" by blast
    from Suc.IH [OF this(1) pos1 this(2)] body None show ?thesis by simp
  qed
qed

text \<open>
  The retry budget of a run that has come to its end: \<^verbatim>\<open>retry\<close> is set to 5 once, before the
  loop, and every \<^verbatim>\<open>BadStatusLine\<close> of a \<^verbatim>\<open>get_file\<close> request takes one from it. The run ends
  with exit status 170 exactly when five requests have failed; the destination file is
  closed then, and the fifth failure was the last request. What has been written to the
  destination stays in it through all later passes of the loop. A service that fails
  every request from the \<open>j\<close>-th on brings the download to an end within \<open>j + 5\<close> requests.
\<close>

lemma download_retry_budget:
  "(download_file n get_file = Some (res, s) \<longrightarrow>
      dl_retry s = 5 - int (length (filter
          (\<lambda>k. get_file k (dl_calls s ! k) = BadStatusLine) [0..<length (dl_calls s)]))
      \<and> (res = SysExit 170 \<longleftrightarrow>
            length (filter (\<lambda>k. get_file k (dl_calls s ! k) = BadStatusLine)
              [0..<length (dl_calls s)]) = 5)
      \<and> (res = SysExit 170 \<longrightarrow>
            fp_closed s \<and> last (dl_stderr s) = File_transfer_failed
            \<and> get_file (length (dl_calls s) - 1) (last (dl_calls s)) = BadStatusLine))
   \<and> (download_loop m get_file s0 = Some (res', s') \<and> 0 < dl_retry s0 \<longrightarrow>
        (\<exists>w. fp_data s' = fp_data s0 @ w))
   \<and> ((\<forall>k p. j \<le> k \<longrightarrow> get_file k p = BadStatusLine) \<longrightarrow>
        (\<exists>res'' s''. download_file (j + 5) get_file = Some (res'', s'')))"
proof (intro conjI)
  show "download_file n get_file = Some (res, s) \<longrightarrow>
      dl_retry s = 5 - int (length (filter
          (\<lambda>k. get_file k (dl_calls s ! k) = BadStatusLine) [0..<length (dl_calls s)]))
      \<and> (res = SysExit 170 \<longleftrightarrow>
            length (filter (\<lambda>k. get_file k (dl_calls s ! k) = BadStatusLine)
              [0..<length (dl_calls s)]) = 5)
      \<and> (res = SysExit 170 \<longrightarrow>
            fp_closed s \<and> last (dl_stderr s) = File_transfer_failed
            \<and> get_file (length (dl_calls s) - 1) (last (dl_calls s)) = BadStatusLine)"
  proof
    assume "download_file n get_file = Some (res, s)"
    then have run: "download_loop n get_file download_init = Some (res, s)"
      by (simp add: download_file_def)
    have pos: "0 < dl_retry download_init" by (simp add: download_init_def)
    note b = download_loop_budget [OF run pos]
    let ?errs = "length (filter (\<lambda>k. get_file k (dl_calls s ! k) = BadStatusLine)
              [0..<length (dl_calls s)])"
    from b have r: "dl_retry s = 5 - int ?errs" by (simp add: download_init_def)
    from b have "res = SysExit 170 \<longleftrightarrow> dl_retry s = 0" by (elim conjE)
    with r have x: "res = SysExit 170 \<longleftrightarrow> ?errs = 5" by auto
    from b have y: "res = SysExit 170 \<longrightarrow>
            fp_closed s \<and> last (dl_stderr s) = File_transfer_failed
            \<and> get_file (length (dl_calls s) - 1) (last (dl_calls s)) = BadStatusLine"
      by (elim conjE)
    from r x y show "dl_retry s = 5 - int ?errs \<and> (res = SysExit 170 \<longleftrightarrow> ?errs = 5)
      \<and> (res = SysExit 170 \<longrightarrow>
            fp_closed s \<and> last (dl_stderr s) = File_transfer_failed
            \<and> get_file (length (dl_calls s) - 1) (last (dl_calls s)) = BadStatusLine)"
      by (intro conjI)
  qed
next
  show "download_loop m get_file s0 = Some (res', s') \<and> 0 < dl_retry s0 \<longrightarrow>
        (\<exists>w. fp_data s' = fp_data s0 @ w)"
  proof
    assume a: "download_loop m get_file s0 = Some (res', s') \<and> 0 < dl_retry s0"
    then have "download_loop m get_file s0 = Some (res', s')" "0 < dl_retry s0" by simp_all
    from download_loop_budget [OF this] show "\<exists>w. fp_data s' = fp_data s0 @ w"
      by (elim conjE)
  qed
next
  show "(\<forall>k p. j \<le> k \<longrightarrow> get_file k p = BadStatusLine) \<longrightarrow>
        (\<exists>res'' s''. download_file (j + 5) get_file = Some (res'', s''))"
  proof
    assume "\<forall>k p. j \<le> k \<longrightarrow> get_file k p = BadStatusLine"
    then have "\<forall>k p. length (dl_calls download_init) + j \<le> k \<longrightarrow> get_file k p = BadStatusLine"
      by (simp add: download_init_def)
    moreover have "0 < dl_retry download_init" "j + nat (dl_retry download_init) \<le> j + 5"
      by (simp_all add: download_init_def)
    ultimately have "\<exists>res s. download_loop (j + 5) get_file download_init = Some (res, s)"
      by (rule download_loop_ends)
    then show "\<exists>res'' s''. download_file (j + 5) get_file = Some (res'', s'')"
      by (simp add: download_file_def)
  qed
qed

text \<open>
  C2: the claim is that a \<^verbatim>\<open>get_file\<close> request that fails with a transient protocol error
  is made again for the same chunk, which is neither skipped nor duplicated, with a
  budget of five attempts for each chunk. The code announces the retry
  (\<^verbatim>\<open>get_file part ... failed, retry ... times\<close>) but its \<^verbatim>\<open>except\<close> branch does not go back to
  the head of the loop: it goes on with \<^verbatim>\<open>ret\<close> as the request before left it. In the first
  run below the service holds the chunks \<open>[1]\<close> and \<open>[2]\<close> and fails the second request
  only: chunk 1, whose request failed, is never requested again, chunk 0 is written a second
  time, and the download returns with \<open>[1, 1]\<close> where the file is \<open>[1, 2]\<close>. In the second run
  the first request fails: \<^verbatim>\<open>ret\<close> is not bound yet, and the download ends with
  \<^verbatim>\<open>UnboundLocalError\<close>, its destination left open. In the third run five requests fail, each
  for another chunk after one attempt, and the download aborts with status 170.
\<close>

theorem download_failed_chunk_not_rerequested:
  "download_file 3
     (\<lambda>k part. if k = 1 then BadStatusLine
        else if part = 0 then Reply (b2a_base64 [1])
        else if part = 1 then Reply (b2a_base64 [2])
        else Reply ''EndOfFile'') =
     Some (Returned,
       \<lparr>dl_part = 2, dl_retry = 4, dl_ret = Some ''EndOfFile'', fp_data = [1, 1],
        fp_closed = True, dl_calls = [0, 1, 2], dl_stderr = [Get_file_failed 1 4]\<rparr>)
   \<and> download_file 1 (\<lambda>k part. BadStatusLine) =
     Some (Raised UnboundLocalError,
       \<lparr>dl_part = 0, dl_retry = 4, dl_ret = None, fp_data = [],
        fp_closed = False, dl_calls = [0], dl_stderr = [Get_file_failed 0 4]\<rparr>)
   \<and> download_file 6 (\<lambda>k part. if k = 0 then Reply (b2a_base64 [1]) else BadStatusLine) =
     Some (SysExit 170,
       \<lparr>dl_part = 5, dl_retry = 0, dl_ret = Some (b2a_base64 [1]), fp_data = [1, 1, 1, 1, 1],
        fp_closed = True, dl_calls = [0, 1, 2, 3, 4, 5],
        dl_stderr = [Get_file_failed 1 4, Get_file_failed 2 3, Get_file_failed 3 2,
                     Get_file_failed 4 1, Get_file_failed 5 0, File_transfer_failed]\<rparr>)"
  by (simp add: download_file_def download_init_def download_body_def download_rest_def
      a2b_b2a b2a_not_eof numeral_eq_Suc)

subsection \<open>BuildAction.execute\<close>

lemma snoc2_1: "(xs @ [a, b] = ys @ [c]) = (xs @ [a] = ys \<and> b = c)"
proof -
  have "xs @ [a, b] = (xs @ [a]) @ [b]" by simp
  then show ?thesis by (simp only: append1_eq_conv)
qed

lemma snoc2_2: "(xs @ [a, b] = ys @ [c, d]) = (xs = ys \<and> a = c \<and> b = d)"
  by simp

lemma snoc2_3: "(xs @ [a, b] = ys @ [c, d, e]) = (xs = ys @ [c] \<and> a = d \<and> b = e)"
proof -
  have "ys @ [c, d, e] = (ys @ [c]) @ [d, e]" by simp
  then show ?thesis by (simp only: snoc2_2)
qed

lemma snoc2_4: "(xs @ [a, b] = ys @ [c, d, e, f]) = (xs = ys @ [c, d] \<and> a = e \<and> b = f)"
proof -
  have "ys @ [c, d, e, f] = (ys @ [c, d]) @ [e, f]" by simp
  then show ?thesis by (simp only: snoc2_2)
qed


lemmas snoc2 = snoc2_1 snoc2_2 snoc2_3 snoc2_4

lemmas pipeline_unfold = system_def command_out_stderr_def eprint_def Let_def

lemma build_project_early:
  assumes "build_project env opt \<lparr>cmds = [], stderr = []\<rparr> = (r, s1)"
  shows "(\<forall>x\<in>set (cmds s1).
            case x of Set_pdebuild a b c d e \<Rightarrow> False | Get_files ou p \<Rightarrow> False
            | Dump_file p f \<Rightarrow> False | _ \<Rightarrow> True)
         \<and> r \<noteq> Inl (SysExit 167) \<and> r \<noteq> Inl (SysExit 168) \<and> r \<noteq> Inl (SysExit 169)"
  using assms
  by (auto simp: build_project_def pipeline_unfold split: if_splits prod.splits bool.splits)

lemma push_origs_early:
  assumes "push_origs env p fs s = (ok, s')"
    and "\<forall>x\<in>set (cmds s).
            case x of Set_pdebuild a b c d e \<Rightarrow> False | Get_files ou p \<Rightarrow> False
            | Dump_file p f \<Rightarrow> False | _ \<Rightarrow> True"
  shows "\<forall>x\<in>set (cmds s').
            case x of Set_pdebuild a b c d e \<Rightarrow> False | Get_files ou p \<Rightarrow> False
            | Dump_file p f \<Rightarrow> False | _ \<Rightarrow> True"
  using assms
proof (induction fs arbitrary: s)
  case Nil
  then show ?case by simp
next
  case (Cons f fs)
  show ?case
  proof (cases "cr_ret (env (length (cmds s)) (Set_orig p f)) = 0")
    case True
    with Cons.prems(1) have "push_origs env p fs (s\<lparr>cmds := cmds s @ [Set_orig p f]\<rparr>) = (ok, s')"
      by (simp add: pipeline_unfold)
    moreover from Cons.prems(2) have "\<forall>x\<in>set (cmds (s\<lparr>cmds := cmds s @ [Set_orig p f]\<rparr>)).
            case x of Set_pdebuild a b c d e \<Rightarrow> False | Get_files ou p \<Rightarrow> False
            | Dump_file p f \<Rightarrow> False | _ \<Rightarrow> True" by simp
    ultimately show ?thesis by (rule Cons.IH)
  next
    case False
    with Cons.prems show ?thesis by (auto simp: pipeline_unfold)
  qed
qed


lemma build_execute_shape:
  assumes "BuildAction_execute env tarball opt = (res, s)"
  shows "((\<forall>x\<in>set (cmds s).
            case x of Set_pdebuild a b c d e \<Rightarrow> False | Get_files ou p \<Rightarrow> False
            | Dump_file p f \<Rightarrow> False | _ \<Rightarrow> True)
          \<and> res \<noteq> SysExit 167 \<and> res \<noteq> SysExit 168 \<and> res \<noteq> SysExit 169)
    \<or> (\<exists>c3 sp p ou.
          (\<forall>x\<in>set c3.
            case x of Set_pdebuild a b c d e \<Rightarrow> False | Get_files ou p \<Rightarrow> False
            | Dump_file p f \<Rightarrow> False | _ \<Rightarrow> True)
          \<and> (\<exists>a b c d e. sp = Set_pdebuild a b c d e)
          \<and> (res = SysExit 166 \<and> cmds s = c3 @ [sp]
             \<or> res = SysExit 167 \<and> cmds s = c3 @ [sp, Wait_busy p]
                 \<and> cr_ret (env (Suc (length c3)) (Wait_busy p)) \<noteq> 0
             \<or> res = Returned \<and> cmds s = c3 @ [sp, Wait_busy p, Get_files ou p]
             \<or> res = SysExit (if opt_skip_download opt then 168 else 169)
                 \<and> cmds s = c3 @ [sp, Wait_busy p, Get_files ou p, Dump_file p ''log.txt'']
                 \<and> cr_ret (env (Suc (Suc (length c3))) (Get_files ou p)) \<noteq> 0
                 \<and> (cr_ret (env (Suc (Suc (Suc (length c3)))) (Dump_file p ''log.txt'')) \<noteq> 0 \<longrightarrow>
                       ''elbe control dump_file Failed'' \<in> set (stderr s))))"
proof -
  obtain r s1 where bp: "build_project env opt \<lparr>cmds = [], stderr = []\<rparr> = (r, s1)"
    by (cases "build_project env opt \<lparr>cmds = [], stderr = []\<rparr>")
  note e1 = build_project_early [OF bp]
  show ?thesis
  proof (cases r)
    case (Inl e)
    with assms bp have "res = e" "s = s1" by (auto simp: BuildAction_execute_def)
    with e1 Inl show ?thesis by simp
  next
    case (Inr prjdir)
    let ?s2 = "s1\<lparr>cmds := cmds s1 @ [Tar tarball]\<rparr>"
    from e1 have e2: "\<forall>x\<in>set (cmds ?s2).
            case x of Set_pdebuild a b c d e \<Rightarrow> False | Get_files ou p \<Rightarrow> False
            | Dump_file p f \<Rightarrow> False | _ \<Rightarrow> True" by simp
    show ?thesis
    proof (cases "cr_ret (env (length (cmds s1)) (Tar tarball)) = 0")
      case False
      with assms bp Inr have "res = SysExit 164" "cmds s = cmds ?s2"
        by (auto simp: BuildAction_execute_def pipeline_unfold)
      with e2 show ?thesis by simp
    next
      case True
      obtain ok s3 where po: "push_origs env prjdir (opt_origfile opt) ?s2 = (ok, s3)"
        by (cases "push_origs env prjdir (opt_origfile opt) ?s2")
      note e3 = push_origs_early [OF po e2]
      show ?thesis
      proof (cases ok)
        case False
        with assms bp Inr True po have "res = SysExit 165" "s = s3"
          by (auto simp: BuildAction_execute_def pipeline_unfold)
        with e3 show ?thesis by simp
      next
        case ok: True
        define crossopt where "crossopt = (if opt_cross opt then ''--cross'' else [])"
        define ou where
          "ou = (if opt_skip_download opt then None else opt_outdir (ensure_outdir opt))"
        define code :: nat where "code = (if opt_skip_download opt then 168 else 169)"
        let ?sp = "Set_pdebuild (opt_cpuset opt) (opt_profile opt) crossopt prjdir tarball"
        let ?ou = ou
        have sp: "\<exists>a b c d e. ?sp = Set_pdebuild a b c d e" by blast
        have bf: "\<And>s'. build_fetch env opt prjdir s' =
            (case system env (Get_files ou prjdir) s' of
               (False, s1) \<Rightarrow> dump_log env prjdir code s1
             | (True, s1) \<Rightarrow> (Returned, s1))"
        proof -
          fix s'
          show "build_fetch env opt prjdir s' =
            (case system env (Get_files ou prjdir) s' of
               (False, s1) \<Rightarrow> dump_log env prjdir code s1
             | (True, s1) \<Rightarrow> (Returned, s1))"
            by (cases "opt_skip_download opt";
                cases "cr_ret (env (length (cmds s')) (Get_files ou prjdir)) = 0")
              (simp_all add: build_fetch_def ou_def code_def system_def)
        qed
        let ?s4 = "s3\<lparr>cmds := cmds s3 @ [?sp]\<rparr>"
        let ?s5 = "s3\<lparr>cmds := cmds s3 @ [?sp, Wait_busy prjdir]\<rparr>"
        let ?A = "cr_ret (env (length (cmds s3)) ?sp) = 0"
        let ?B = "cr_ret (env (Suc (length (cmds s3))) (Wait_busy prjdir)) = 0"
        let ?C = "cr_ret (env (Suc (Suc (length (cmds s3)))) (Get_files ?ou prjdir)) = 0"
        let ?D = "cr_ret (env (Suc (Suc (Suc (length (cmds s3))))) (Dump_file prjdir ''log.txt'')) = 0"
        from assms bp Inr True po ok
        have eq: "(res, s) =
            (case system env ?sp s3 of
               (False, s4) \<Rightarrow>
                 (SysExit 166, eprint [''elbe control set_pdebuild Failed'', ''Giving up''] s4)
             | (True, s4) \<Rightarrow>
                 (case system env (Wait_busy prjdir) s4 of
                    (False, s5) \<Rightarrow>
                      (SysExit 167, eprint [''elbe control wait_busy Failed'', ''Giving up''] s5)
                  | (True, s5) \<Rightarrow> build_fetch env opt prjdir s5))"
          by (simp add: BuildAction_execute_def system_def [of env "Tar tarball"] crossopt_def)
        have "res = SysExit 166 \<and> cmds s = cmds s3 @ [?sp]
             \<or> res = SysExit 167 \<and> cmds s = cmds s3 @ [?sp, Wait_busy prjdir]
                 \<and> cr_ret (env (Suc (length (cmds s3))) (Wait_busy prjdir)) \<noteq> 0
             \<or> res = Returned \<and> cmds s = cmds s3 @ [?sp, Wait_busy prjdir, Get_files ?ou prjdir]
             \<or> res = SysExit code
                 \<and> cmds s = cmds s3 @ [?sp, Wait_busy prjdir, Get_files ?ou prjdir,
                                        Dump_file prjdir ''log.txt'']
                 \<and> cr_ret (env (Suc (Suc (length (cmds s3)))) (Get_files ?ou prjdir)) \<noteq> 0
                 \<and> (cr_ret (env (Suc (Suc (Suc (length (cmds s3))))) (Dump_file prjdir ''log.txt'')) \<noteq> 0 \<longrightarrow>
                       ''elbe control dump_file Failed'' \<in> set (stderr s))"
        proof (cases ?A)
          case False
          with eq have "res = SysExit 166 \<and> cmds s = cmds s3 @ [?sp]"
            by (simp add: pipeline_unfold)
          then show ?thesis by simp
        next
          case A: True
          show ?thesis
          proof (cases ?B)
            case False
            with eq A have "res = SysExit 167 \<and> cmds s = cmds s3 @ [?sp, Wait_busy prjdir]"
              by (simp add: pipeline_unfold)
            with False show ?thesis by simp
          next
            case B: True
            from eq A B have eq2: "(res, s) = build_fetch env opt prjdir ?s5"
              by (simp add: pipeline_unfold)
            show ?thesis
            proof (cases ?C)
              case True
              with eq2 have "res = Returned
                  \<and> cmds s = cmds s3 @ [?sp, Wait_busy prjdir, Get_files ?ou prjdir]"
                by (simp add: bf pipeline_unfold)
              then show ?thesis by simp
            next
              case C: False
              show ?thesis
              proof (cases ?D)
                case True
                with eq2 C have "res = SysExit code
                  \<and> cmds s = cmds s3 @ [?sp, Wait_busy prjdir, Get_files ?ou prjdir,
                                         Dump_file prjdir ''log.txt'']"
                  by (simp add: bf dump_log_def pipeline_unfold)
                with C True show ?thesis by simp
              next
                case False
                with eq2 C have "res = SysExit code
                  \<and> cmds s = cmds s3 @ [?sp, Wait_busy prjdir, Get_files ?ou prjdir,
                                         Dump_file prjdir ''log.txt'']
                  \<and> ''elbe control dump_file Failed'' \<in> set (stderr s)"
                  by (simp add: bf dump_log_def pipeline_unfold)
                with C show ?thesis by simp
              qed
            qed
          qed
        qed
        then have "res = SysExit 166 \<and> cmds s = cmds s3 @ [?sp]
             \<or> res = SysExit 167 \<and> cmds s = cmds s3 @ [?sp, Wait_busy prjdir]
                 \<and> cr_ret (env (Suc (length (cmds s3))) (Wait_busy prjdir)) \<noteq> 0
             \<or> res = Returned \<and> cmds s = cmds s3 @ [?sp, Wait_busy prjdir, Get_files ?ou prjdir]
             \<or> res = SysExit (if opt_skip_download opt then 168 else 169)
                 \<and> cmds s = cmds s3 @ [?sp, Wait_busy prjdir, Get_files ?ou prjdir,
                                        Dump_file prjdir ''log.txt'']
                 \<and> cr_ret (env (Suc (Suc (length (cmds s3)))) (Get_files ?ou prjdir)) \<noteq> 0
                 \<and> (cr_ret (env (Suc (Suc (Suc (length (cmds s3))))) (Dump_file prjdir ''log.txt'')) \<noteq> 0 \<longrightarrow>
                       ''elbe control dump_file Failed'' \<in> set (stderr s))"
          by (simp only: code_def)
        with sp e3 show ?thesis by blast
      qed
    qed
  qed
qed


text \<open>
  The other direction, for every run of the pipeline: it leaves with exit status 167 only
  if its run ends with a failed \<^verbatim>\<open>wait_busy\<close> after \<^verbatim>\<open>set_pdebuild\<close>, having run no
  \<^verbatim>\<open>dump_file\<close>, and with 168 or 169 only if its run ends with a failed \<^verbatim>\<open>get_files\<close> followed
  by \<^verbatim>\<open>dump_file\<close> of \<^verbatim>\<open>log.txt\<close>.
\<close>

lemma build_exit_status_only_if:
  assumes "BuildAction_execute env tarball opt = (res, s)"
  shows "(res = SysExit 167 \<longleftrightarrow>
            (\<exists>pre a b c d e p. cmds s = pre @ [Set_pdebuild a b c d e, Wait_busy p]
               \<and> cr_ret (env (Suc (length pre)) (Wait_busy p)) \<noteq> 0))
    \<and> (res = SysExit 167 \<longrightarrow> (\<forall>p f. Dump_file p f \<notin> set (cmds s)))
    \<and> (res = SysExit 168 \<or> res = SysExit 169 \<longleftrightarrow>
          (\<exists>pre ou p. cmds s = pre @ [Get_files ou p, Dump_file p ''log.txt'']
             \<and> cr_ret (env (length pre) (Get_files ou p)) \<noteq> 0))
    \<and> (res = SysExit 168 \<or> res = SysExit 169 \<longrightarrow>
          res = SysExit (if opt_skip_download opt then 168 else 169)
          \<and> (cr_ret (env (length (cmds s) - 1) (last (cmds s))) \<noteq> 0 \<longrightarrow>
                ''elbe control dump_file Failed'' \<in> set (stderr s)))"
proof -
  note sh = build_execute_shape [OF assms]
  have 1: "res = SysExit 167 \<longleftrightarrow>
            (\<exists>pre a b c d e p. cmds s = pre @ [Set_pdebuild a b c d e, Wait_busy p]
               \<and> cr_ret (env (Suc (length pre)) (Wait_busy p)) \<noteq> 0)"
    using sh by (elim disjE exE conjE) (auto simp: snoc2 split: if_splits)
  have 2: "res = SysExit 167 \<longrightarrow> (\<forall>p f. Dump_file p f \<notin> set (cmds s))"
    using sh by (elim disjE exE conjE) (auto split: if_splits)
  have 3: "res = SysExit 168 \<or> res = SysExit 169 \<longleftrightarrow>
          (\<exists>pre ou p. cmds s = pre @ [Get_files ou p, Dump_file p ''log.txt'']
             \<and> cr_ret (env (length pre) (Get_files ou p)) \<noteq> 0)"
    using sh by (elim disjE exE conjE) (auto simp: snoc2 split: if_splits)
  have 4: "res = SysExit 168 \<or> res = SysExit 169 \<longrightarrow>
          res = SysExit (if opt_skip_download opt then 168 else 169)
          \<and> (cr_ret (env (length (cmds s) - 1) (last (cmds s))) \<noteq> 0 \<longrightarrow>
                ''elbe control dump_file Failed'' \<in> set (stderr s))"
    using sh by (elim disjE exE conjE) (auto split: if_splits)
  from 1 2 3 4 show ?thesis by (intro conjI)
qed

lemma push_origs_ok:
  "\<forall>i<length fs. cr_ret (env (length (cmds s) + i) (Set_orig p (fs ! i))) = 0 \<Longrightarrow>
     push_origs env p fs s = (True, s\<lparr>cmds := cmds s @ map (Set_orig p) fs\<rparr>)"
proof (induction fs arbitrary: s)
  case Nil
  then show ?case by simp
next
  case (Cons f fs)
  let ?s1 = "s\<lparr>cmds := cmds s @ [Set_orig p f]\<rparr>"
  from Cons.prems have first: "cr_ret (env (length (cmds s)) (Set_orig p f)) = 0" by fastforce
  have "\<forall>i<length fs. cr_ret (env (length (cmds ?s1) + i) (Set_orig p (fs ! i))) = 0"
  proof (intro allI impI)
    fix i assume "i < length fs"
    then have "Suc i < length (f # fs)" by simp
    with Cons.prems
    have "cr_ret (env (length (cmds s) + Suc i) (Set_orig p ((f # fs) ! Suc i))) = 0" by blast
    then show "cr_ret (env (length (cmds ?s1) + i) (Set_orig p (fs ! i))) = 0" by simp
  qed
  from Cons.IH [OF this] first show ?case by (simp add: system_def)
qed

text \<open>
  C4, as the code has it. Take a run of the \<^verbatim>\<open>build\<close> pipeline in which every step before
  the wait-for-busy step succeeds: \<^verbatim>\<open>rm_log\<close> for an existing project, or
  \<^verbatim>\<open>create_project\<close>, \<^verbatim>\<open>build_pbuilder\<close> and its \<^verbatim>\<open>wait_busy\<close> for a configuration document,
  then \<^verbatim>\<open>tar\<close>, a \<^verbatim>\<open>set_orig\<close> for each orig file, and \<^verbatim>\<open>set_pdebuild\<close>. If the wait-for-busy
  step then fails, the pipeline leaves with exit status 167 at once: the failed \<^verbatim>\<open>wait_busy\<close>
  is the last command it runs and no \<^verbatim>\<open>dump_file\<close> is among its commands, so the remote log
  is not fetched. If the wait succeeds and the \<^verbatim>\<open>get_files\<close> step fails, the pipeline runs
  \<^verbatim>\<open>dump_file\<close> of \<^verbatim>\<open>log.txt\<close> next and then leaves with exit status 168 if the download was
  skipped and 169 otherwise, whether that log fetch succeeds or fails; a failed log fetch
  adds its report to \<^verbatim>\<open>stderr\<close> and changes nothing else.
\<close>

theorem build_wait_and_get_files_failures:
  assumes path:
      "\<not> truthy (opt_xmlfile opt) \<and> opt_project opt = Some prjdir \<and> prjdir \<noteq> []
         \<and> setup = [Rm_log prjdir]
       \<or> (\<exists>xml. opt_xmlfile opt = Some xml \<and> xml \<noteq> []
             \<and> prjdir = strip (cr_out (env 0 (Create_project xml)))
             \<and> setup = [Create_project xml, Build_pbuilder prjdir, Wait_busy prjdir])"
    and pre:
      "pre = setup @ Tar tarball # map (Set_orig prjdir) (opt_origfile opt)
         @ [Set_pdebuild (opt_cpuset opt) (opt_profile opt)
              (if opt_cross opt then ''--cross'' else []) prjdir tarball]"
    and ok: "\<forall>k<length pre. cr_ret (env k (pre ! k)) = 0"
    and ou:
      "ou = (if opt_skip_download opt then None
             else Some (case opt_outdir opt of None \<Rightarrow> ''..'' | Some d \<Rightarrow> d))"
  shows "(cr_ret (env (length pre) (Wait_busy prjdir)) \<noteq> 0 \<longrightarrow>
            BuildAction_execute env tarball opt =
              (SysExit 167,
               \<lparr>cmds = pre @ [Wait_busy prjdir],
                stderr = [''elbe control wait_busy Failed'', ''Giving up'']\<rparr>)
            \<and> (\<forall>p f. Dump_file p f \<notin> set (pre @ [Wait_busy prjdir])))
    \<and> (cr_ret (env (length pre) (Wait_busy prjdir)) = 0
        \<and> cr_ret (env (Suc (length pre)) (Get_files ou prjdir)) \<noteq> 0 \<longrightarrow>
            BuildAction_execute env tarball opt =
              (SysExit (if opt_skip_download opt then 168 else 169),
               \<lparr>cmds = pre @ [Wait_busy prjdir, Get_files ou prjdir, Dump_file prjdir ''log.txt''],
                stderr = [''elbe control get_files Failed'', [], ''dumping logfile'']
                  @ (if cr_ret (env (Suc (Suc (length pre))) (Dump_file prjdir ''log.txt'')) = 0
                     then [] else [''elbe control dump_file Failed'', [], ''Giving up''])\<rparr>))"
proof -
  define crossopt where "crossopt = (if opt_cross opt then ''--cross'' else [])"
  define origs where "origs = opt_origfile opt"
  let ?sp = "Set_pdebuild (opt_cpuset opt) (opt_profile opt) crossopt prjdir tarball"
  let ?m = "length setup"
  have pre': "pre = setup @ Tar tarball # map (Set_orig prjdir) origs @ [?sp]"
    by (simp add: pre crossopt_def origs_def)
  have len: "length pre = Suc (Suc (?m + length origs))" by (simp add: pre')
  have ok_nth: "cr_ret (env k c) = 0" if "k < length pre" "pre ! k = c" for k c
    using ok that by blast
  have ok_setup: "cr_ret (env k (setup ! k)) = 0" if "k < ?m" for k
    using that by (intro ok_nth) (simp_all add: pre' nth_append)
  have ok_tar: "cr_ret (env ?m (Tar tarball)) = 0"
    by (intro ok_nth) (simp_all add: pre' nth_append)
  have ok_origs: "\<forall>i<length origs. cr_ret (env (Suc ?m + i) (Set_orig prjdir (origs ! i))) = 0"
  proof (intro allI impI)
    fix i assume "i < length origs"
    then show "cr_ret (env (Suc ?m + i) (Set_orig prjdir (origs ! i))) = 0"
      by (intro ok_nth) (simp_all add: pre' nth_append)
  qed
  have ok_sp: "cr_ret (env (Suc (?m + length origs)) ?sp) = 0"
    by (intro ok_nth) (simp_all add: pre' nth_append)
  have bp: "build_project env opt \<lparr>cmds = [], stderr = []\<rparr> =
      (Inr prjdir, \<lparr>cmds = setup, stderr = []\<rparr>)"
    using path
  proof (elim disjE exE conjE)
    assume a: "\<not> truthy (opt_xmlfile opt)" "opt_project opt = Some prjdir" "prjdir \<noteq> []"
      "setup = [Rm_log prjdir]"
    from ok_setup [of 0] a have "cr_ret (env 0 (Rm_log prjdir)) = 0" by simp
    with a show ?thesis by (simp add: build_project_def system_def)
  next
    fix xml
    assume a: "opt_xmlfile opt = Some xml" "xml \<noteq> []"
      "prjdir = strip (cr_out (env 0 (Create_project xml)))"
      "setup = [Create_project xml, Build_pbuilder prjdir, Wait_busy prjdir]"
    from ok_setup [of 0] ok_setup [of 1] ok_setup [of 2] a
    have "cr_ret (env 0 (Create_project xml)) = 0"
      "cr_ret (env (Suc 0) (Build_pbuilder prjdir)) = 0"
      "cr_ret (env 2 (Wait_busy prjdir)) = 0" by simp_all
    with a show ?thesis
      by (simp add: build_project_def system_def command_out_stderr_def Let_def numeral_2_eq_2)
  qed
  let ?s2 = "\<lparr>cmds = setup @ [Tar tarball], stderr = []\<rparr>"
  have po: "push_origs env prjdir origs ?s2 =
      (True, ?s2\<lparr>cmds := cmds ?s2 @ map (Set_orig prjdir) origs\<rparr>)"
    using ok_origs by (intro push_origs_ok) simp
  let ?s4 = "\<lparr>cmds = pre, stderr = []\<rparr>"
  have tail: "BuildAction_execute env tarball opt =
      (case system env (Wait_busy prjdir) ?s4 of
         (False, s5) \<Rightarrow>
           (SysExit 167, eprint [''elbe control wait_busy Failed'', ''Giving up''] s5)
       | (True, s5) \<Rightarrow> build_fetch env opt prjdir s5)"
    using bp ok_tar po ok_sp
    by (simp add: BuildAction_execute_def system_def [of env "Tar tarball"]
        system_def [of env ?sp] pre' crossopt_def [symmetric] origs_def [symmetric])
  have ou': "ou = (if opt_skip_download opt then None else opt_outdir (ensure_outdir opt))"
    by (simp add: ou ensure_outdir_def split: option.splits)
  show ?thesis
  proof (intro conjI impI)
    assume "cr_ret (env (length pre) (Wait_busy prjdir)) \<noteq> 0"
    with tail show "BuildAction_execute env tarball opt =
              (SysExit 167,
               \<lparr>cmds = pre @ [Wait_busy prjdir],
                stderr = [''elbe control wait_busy Failed'', ''Giving up'']\<rparr>)"
      by (simp add: system_def eprint_def)
  next
    show "\<forall>p f. Dump_file p f \<notin> set (pre @ [Wait_busy prjdir])"
      using path by (auto simp: pre)
  next
    assume a: "cr_ret (env (length pre) (Wait_busy prjdir)) = 0
        \<and> cr_ret (env (Suc (length pre)) (Get_files ou prjdir)) \<noteq> 0"
    show "BuildAction_execute env tarball opt =
              (SysExit (if opt_skip_download opt then 168 else 169),
               \<lparr>cmds = pre @ [Wait_busy prjdir, Get_files ou prjdir, Dump_file prjdir ''log.txt''],
                stderr = [''elbe control get_files Failed'', [], ''dumping logfile'']
                  @ (if cr_ret (env (Suc (Suc (length pre))) (Dump_file prjdir ''log.txt'')) = 0
                     then [] else [''elbe control dump_file Failed'', [], ''Giving up''])\<rparr>)"
      using a tail
      by (cases "opt_skip_download opt";
          cases "cr_ret (env (Suc (Suc (length pre))) (Dump_file prjdir ''log.txt'')) = 0")
        (simp_all add: system_def eprint_def build_fetch_def dump_log_def ou' Let_def)
  qed
qed


theorem build_wait_and_get_files_failures_witness:
  "BuildAction_execute
     (\<lambda>k c. \<lparr>cr_ret = (case c of Get_files ou p \<Rightarrow> 1 | Dump_file p f \<Rightarrow> 1 | _ \<Rightarrow> 0),
              cr_out = [], cr_err = []\<rparr>)
     ''/tmp/pdebuild.tar.gz''
     \<lparr>opt_cross = False, opt_xmlfile = None, opt_project = Some ''/var/cache/elbe/prj'',
      opt_origfile = [''hello_1.0.orig.tar.gz''], opt_cpuset = ''-1'', opt_profile = [],
      opt_skip_download = False, opt_outdir = None\<rparr> =
     (SysExit 169,
      \<lparr>cmds =
         [Rm_log ''/var/cache/elbe/prj'', Tar ''/tmp/pdebuild.tar.gz'',
          Set_orig ''/var/cache/elbe/prj'' ''hello_1.0.orig.tar.gz'',
          Set_pdebuild ''-1'' [] [] ''/var/cache/elbe/prj'' ''/tmp/pdebuild.tar.gz'',
          Wait_busy ''/var/cache/elbe/prj'', Get_files (Some ''..'') ''/var/cache/elbe/prj'',
          Dump_file ''/var/cache/elbe/prj'' ''log.txt''],
       stderr =
         [''elbe control get_files Failed'', [], ''dumping logfile'',
          ''elbe control dump_file Failed'', [], ''Giving up'']\<rparr>)"
proof -
  let ?env = "\<lambda>(k :: nat) c.
     \<lparr>cr_ret = (case c of Get_files ou p \<Rightarrow> 1 | Dump_file p f \<Rightarrow> 1 | _ \<Rightarrow> (0 :: int)),
      cr_out = [], cr_err = []\<rparr>"
  let ?opt = "\<lparr>opt_cross = False, opt_xmlfile = None, opt_project = Some ''/var/cache/elbe/prj'',
      opt_origfile = [''hello_1.0.orig.tar.gz''], opt_cpuset = ''-1'', opt_profile = [],
      opt_skip_download = False, opt_outdir = None\<rparr>"
  let ?p = "''/var/cache/elbe/prj''"
  let ?t = "''/tmp/pdebuild.tar.gz''"
  let ?pre = "[Rm_log ?p, Tar ?t, Set_orig ?p ''hello_1.0.orig.tar.gz'',
      Set_pdebuild ''-1'' [] [] ?p ?t]"
  have path: "\<not> truthy (opt_xmlfile ?opt) \<and> opt_project ?opt = Some ?p \<and> ?p \<noteq> []
         \<and> [Rm_log ?p] = [Rm_log ?p]
       \<or> (\<exists>xml. opt_xmlfile ?opt = Some xml \<and> xml \<noteq> []
             \<and> ?p = strip (cr_out (?env 0 (Create_project xml)))
             \<and> [Rm_log ?p] = [Create_project xml, Build_pbuilder ?p, Wait_busy ?p])"
    by simp
  have pre: "?pre = [Rm_log ?p] @ Tar ?t # map (Set_orig ?p) (opt_origfile ?opt)
         @ [Set_pdebuild (opt_cpuset ?opt) (opt_profile ?opt)
              (if opt_cross ?opt then ''--cross'' else []) ?p ?t]"
    by simp
  have "\<forall>c\<in>set ?pre. cr_ret (?env k c) = 0" for k by simp
  then have ok: "\<forall>k<length ?pre. cr_ret (?env k (?pre ! k)) = 0"
    using nth_mem by blast
  have ou: "Some ''..'' = (if opt_skip_download ?opt then None
             else Some (case opt_outdir ?opt of None \<Rightarrow> ''..'' | Some d \<Rightarrow> d))"
    by simp
  from build_wait_and_get_files_failures [OF path pre ok ou]
  show ?thesis by simp
qed

text \<open>
  C4 as stated fails: when \<^verbatim>\<open>wait_busy\<close> fails after \<^verbatim>\<open>set_pdebuild\<close>, in an environment where
  every other command would succeed, the pipeline leaves with status 167 at once; no
  \<^verbatim>\<open>dump_file\<close> command is among the commands it ran.
\<close>

theorem wait_failure_fetches_no_log_counterexample:
  "BuildAction_execute
     (\<lambda>k c. \<lparr>cr_ret = (case c of Wait_busy p \<Rightarrow> 1 | _ \<Rightarrow> 0), cr_out = [], cr_err = []\<rparr>)
     ''/tmp/pdebuild.tar.gz''
     \<lparr>opt_cross = False, opt_xmlfile = None, opt_project = Some ''/var/cache/elbe/prj'',
      opt_origfile = [], opt_cpuset = ''-1'', opt_profile = [],
      opt_skip_download = False, opt_outdir = None\<rparr> =
     (SysExit 167,
      \<lparr>cmds =
         [Rm_log ''/var/cache/elbe/prj'', Tar ''/tmp/pdebuild.tar.gz'',
          Set_pdebuild ''-1'' [] [] ''/var/cache/elbe/prj'' ''/tmp/pdebuild.tar.gz'',
          Wait_busy ''/var/cache/elbe/prj''],
       stderr = [''elbe control wait_busy Failed'', ''Giving up'']\<rparr>)"
  by (simp add: BuildAction_execute_def build_project_def pipeline_unfold)

end
